theory Spec2Isabelle
  imports Main "HOL-Library.Sublist"
begin

section \<open>The build pipeline of spear-cli (\<^verbatim>\<open>packages/spear-cli/src/magic.ts\<close>)\<close>

subsection \<open>Strings\<close>

text \<open>
  JavaScript's \<^verbatim>\<open>s.startsWith(t)\<close> and \<^verbatim>\<open>s.endsWith(t)\<close> compare
  code units position by position; on lists of characters they are the prefix and the
  suffix relation.
\<close>

definition startsWith :: "string \<Rightarrow> string \<Rightarrow> bool" where
  "startsWith s t = prefix t s"

definition endsWith :: "string \<Rightarrow> string \<Rightarrow> bool" where
  "endsWith s t = suffix t s"

subsection \<open>Data model\<close>

text \<open>
  A document node of node-html-parser, with the two things the pipeline touches: the
  \<^verbatim>\<open>childNodes\<close> array, which it reads and assigns, and the tag name. The
  computed property \<^verbatim>\<open>outerHTML\<close> belongs to the library and is a parameter of
  the model (see \<open>Env\<close>).
\<close>

datatype Element = Element (rawTagName: string) (childNodes: "Element list")

definition setChildNodes :: "Element \<Rightarrow> Element list \<Rightarrow> Element" where
  "setChildNodes n ns = Element (rawTagName n) ns"

text \<open>
  \<^verbatim>\<open>Component\<close>, \<^verbatim>\<open>Page\<close> and \<^verbatim>\<open>State\<close> of
  \<^verbatim>\<open>interfaces/MagicInterfaces\<close>. A JavaScript object used as a string-keyed
  mapping (\<^verbatim>\<open>props\<close>, \<^verbatim>\<open>globalProps\<close>) is an association list,
  \<^verbatim>\<open>{}\<close> the empty one; an asset file descriptor is its path.
\<close>

record Component =
  fname :: string
  rawData :: string
  tagName :: string
  node :: Element
  props :: "(string \<times> string) list"

record Page =
  fname :: string
  node :: Element

record Out =
  assetsFiles :: "string list"

record State =
  pagesList :: "Page list"
  componentsList :: "Component list"
  body :: Element
  globalProps :: "(string \<times> string) list"
  out :: Out

text \<open>
  The command line arguments that \<^verbatim>\<open>magic\<close> reads. An absent
  \<^verbatim>\<open>src\<close> or \<^verbatim>\<open>port\<close> is \<open>None\<close>.
\<close>

record Args =
  action :: string
  src :: "string option"
  port :: "nat option"

text \<open>
  \<^verbatim>\<open>DefaultSettings\<close>. The array \<^verbatim>\<open>plugins\<close> holds plugin objects, and
  a plugin's \<^verbatim>\<open>configuration\<close> hook takes and returns Settings; the objects are
  therefore kept in a table (\<open>pluginAt\<close> in \<open>Env\<close>) and the array holds their
  references.
\<close>

type_synonym plugin_ref = nat

record Settings =
  projectName :: string
  settingsFile :: string
  pagesFolder :: string
  componentsFolder :: "string list"
  srcDir :: "string list"
  distDir :: string
  entry :: string
  template :: string
  spearlyAuthKey :: string
  port :: nat
  host :: string
  crossOriginIsolation :: bool
  apiDomain :: string
  analysysDomain :: string
  generateSitemap :: bool
  siteURL :: string
  rootDir :: string
  plugins :: "plugin_ref list"
  quiteMode :: bool

text \<open>
  The object that \<^verbatim>\<open>fileUtil.loadFile\<close> returns for the settings file, as the
  list of its keys with their values, in the order of \<^verbatim>\<open>Object.keys\<close>. A key
  that is not an option of the Settings is \<open>OtherKey\<close>.
\<close>

datatype assignment =
    ProjectName string
  | SettingsFile string
  | PagesFolder string
  | ComponentsFolder "string list"
  | SrcDir "string list"
  | DistDir string
  | Entry string
  | Template string
  | SpearlyAuthKey string
  | Port nat
  | Host string
  | CrossOriginIsolation bool
  | ApiDomain string
  | AnalysysDomain string
  | GenerateSitemap bool
  | SiteURL string
  | RootDir string
  | Plugins "plugin_ref list"
  | QuiteMode bool
  | OtherKey string

text \<open>One \<^verbatim>\<open>Settings[k] = data[k]\<close>.\<close>

fun assign :: "Settings \<Rightarrow> assignment \<Rightarrow> Settings" where
  "assign S (ProjectName v) = S\<lparr>projectName := v\<rparr>"
| "assign S (SettingsFile v) = S\<lparr>settingsFile := v\<rparr>"
| "assign S (PagesFolder v) = S\<lparr>pagesFolder := v\<rparr>"
| "assign S (ComponentsFolder v) = S\<lparr>componentsFolder := v\<rparr>"
| "assign S (SrcDir v) = S\<lparr>srcDir := v\<rparr>"
| "assign S (DistDir v) = S\<lparr>distDir := v\<rparr>"
| "assign S (Entry v) = S\<lparr>entry := v\<rparr>"
| "assign S (Template v) = S\<lparr>template := v\<rparr>"
| "assign S (SpearlyAuthKey v) = S\<lparr>spearlyAuthKey := v\<rparr>"
| "assign S (Port v) = S\<lparr>port := v\<rparr>"
| "assign S (Host v) = S\<lparr>host := v\<rparr>"
| "assign S (CrossOriginIsolation v) = S\<lparr>crossOriginIsolation := v\<rparr>"
| "assign S (ApiDomain v) = S\<lparr>apiDomain := v\<rparr>"
| "assign S (AnalysysDomain v) = S\<lparr>analysysDomain := v\<rparr>"
| "assign S (GenerateSitemap v) = S\<lparr>generateSitemap := v\<rparr>"
| "assign S (SiteURL v) = S\<lparr>siteURL := v\<rparr>"
| "assign S (RootDir v) = S\<lparr>rootDir := v\<rparr>"
| "assign S (Plugins v) = S\<lparr>plugins := v\<rparr>"
| "assign S (QuiteMode v) = S\<lparr>quiteMode := v\<rparr>"
| "assign S (OtherKey k) = S"

text \<open>\<^verbatim>\<open>new SpearlyJSGenerator(authKey, apiDomain, analysysDomain)\<close>.\<close>

datatype SpearlyJSGenerator = SpearlyJSGenerator string string string

subsection \<open>Errors, plugins and collaborators\<close>

text \<open>
  A raised JavaScript value. \<open>TypeError\<close> is what reading a property of
  \<^verbatim>\<open>undefined\<close> raises; any other failure of a collaborator is opaque.
\<close>

datatype error = TypeError string | Failure string

text \<open>How a call of \<^verbatim>\<open>bundle\<close>, \<^verbatim>\<open>loadSettings\<close> or \<^verbatim>\<open>magic\<close> ends.\<close>

datatype 'a outcome = Returned 'a | Raised error

text \<open>
  A hook is a function of the plugin, unknown to the pipeline. JavaScript hands it the
  pipeline's own object, not a copy, so one call is modelled by what the pipeline can
  see when the call has ended: the content of the object that was passed (the hook may
  have assigned to its fields), and how the call ended: it raised, it returned nothing
  or another falsy value, or it returned an object (always truthy) with some content.
  A hook that returns the object it was passed returns the content it left in it.
  A hook whose promise never settles is outside the model: every call ends.
\<close>

datatype 'a completion = Raises | ReturnsFalsy | Returns 'a

type_synonym 'a hook = "'a \<Rightarrow> 'a \<times> 'a completion"

text \<open>
  A plugin: its name and its four optional hook slots. \<open>bundle\<close> is a keyword
  of Isabelle: the slot \<^verbatim>\<open>bundle\<close> is \<open>bundleHook\<close> here, and the
  function \<^verbatim>\<open>bundle\<close> is \<open>bundle'\<close>.
\<close>

record Plugin =
  pluginName :: string
  configuration :: "Settings hook option"
  beforeBuild :: "State hook option"
  afterBuild :: "State hook option"
  bundleHook :: "State hook option"

text \<open>
  What \<^verbatim>\<open>magic.ts\<close> calls and does not define: the working directory of the
  process, \<^verbatim>\<open>path.resolve\<close>, the methods of \<^verbatim>\<open>fileUtil\<close>, the two
  functions of \<^verbatim>\<open>utils/dom.js\<close>, \<^verbatim>\<open>outerHTML\<close>, the directory of the
  library, and the plugin objects. A call that raises returns the error
  (\<open>Inl\<close>, or \<open>Some\<close> where the call returns nothing). \<^verbatim>\<open>parseComponents\<close>
  and \<^verbatim>\<open>parsePages\<close> return nothing and fill the state they are passed: they
  return the state as they leave it. The other collaborators are taken to leave the
  state and the Settings as they find them; the specification calls the resolver a pure
  function. \<^verbatim>\<open>createDir\<close> and \<^verbatim>\<open>dumpPages\<close> are called without
  \<^verbatim>\<open>await\<close>: their error is one raised before they return.
\<close>

record Env =
  cwd :: string
  pathResolve :: "string list \<Rightarrow> string"
  libDirname :: string
  pluginAt :: "plugin_ref \<Rightarrow> Plugin"
  loadFile :: "string \<Rightarrow> error + assignment list option"
  createDir :: "Settings \<Rightarrow> error option"
  parseComponents :: "State \<Rightarrow> string \<Rightarrow> Settings \<Rightarrow> error + State"
  parsePages :: "State \<Rightarrow> string \<Rightarrow> error + State"
  parseElements ::
    "State \<Rightarrow> Element list \<Rightarrow> SpearlyJSGenerator \<Rightarrow> Settings \<Rightarrow> error + Element list"
  outerHTML :: "Element \<Rightarrow> string"
  generateAliasPagesFromPagesList ::
    "State \<Rightarrow> SpearlyJSGenerator \<Rightarrow> Settings \<Rightarrow> error + Page list"
  dumpPages :: "State \<Rightarrow> string \<Rightarrow> Settings \<Rightarrow> error option"

text \<open>
  Modelled from the spec: \<^verbatim>\<open>stateDeepCopy\<close> and \<^verbatim>\<open>defaultSettingDeepCopy\<close>
  of \<^verbatim>\<open>utils/util.js\<close>, which is not among the sources. The specification calls
  the result "a deep structural copy" of the argument: as a value it is the argument.
  That it is another object is the subject of \<open>deepCopyAt\<close> below.
\<close>

definition stateDeepCopy :: "State \<Rightarrow> State" where
  "stateDeepCopy newState = newState"

definition defaultSettingDeepCopy :: "Settings \<Rightarrow> Settings" where
  "defaultSettingDeepCopy newSettings = newSettings"

subsection \<open>The trace of a run\<close>

text \<open>
  Every call that the pipeline makes to a plugin, to a collaborator or to the console,
  in the order of the calls, with its arguments and with what came back.
  \<open>ReadOuterHTML\<close> is the evaluation of \<^verbatim>\<open>parsedNode[0].outerHTML\<close>:
  of the first node, or of \<^verbatim>\<open>undefined\<close> (\<open>None\<close>), which raises.
\<close>

datatype checkpoint = Configuration | BeforeBuild | AfterBuild | Bundle

datatype event =
    LoadFile string "error + assignment list option"
  | CallConfiguration plugin_ref Settings "Settings \<times> Settings completion"
  | CallHook checkpoint plugin_ref State "State \<times> State completion"
  | ConsoleWarn string
  | CreateDir Settings "error option"
  | ParseComponents State string Settings "error + State"
  | ParsePages State string "error + State"
  | LoggerError error
  | ParseElements State "Element list" "error + Element list"
  | ReadOuterHTML "Element option"
  | GenerateAliasPages State "error + Page list"
  | DumpPages State "error option"
  | LoggerLog string
  | Watch
  | LiveServerStart nat string string bool

subsection \<open>Settings deduplication\<close>

text \<open>
  The filter of \<^verbatim>\<open>loadSettings\<close> (lines 182 to 187). The inner callback of
  \<^verbatim>\<open>some\<close> keeps the source's two statements: the guard that returns
  \<^verbatim>\<open>false\<close>, then the returned conjunction. \<^verbatim>\<open>Settings.srcDir\<close> is
  assigned only when \<^verbatim>\<open>filter\<close> has returned, so the inner \<^verbatim>\<open>some\<close>
  always scans the list as it was before the filter.
\<close>

definition srcDirFilter :: "string list \<Rightarrow> string list" where
  "srcDirFilter dirs =
     filter (\<lambda>srcDir.
       \<not> list_ex (\<lambda>srcDir2.
           if srcDir \<noteq> srcDir2 \<and> \<not> endsWith srcDir2 ''components'' then False
           else srcDir \<noteq> srcDir2 \<and> startsWith srcDir srcDir2) dirs) dirs"

subsection \<open>The plugin hook loops\<close>

text \<open>The three \<^verbatim>\<open>console.warn\<close> messages, as the source spells them.\<close>

fun warnMessage :: "checkpoint \<Rightarrow> string \<Rightarrow> string" where
  "warnMessage Configuration name = '' plugin process failed. '' @ name @ ''}}}''"
| "warnMessage BeforeBuild name = '' plugin process failed. ['' @ name @ '']''"
| "warnMessage AfterBuild name = '' plugin process failed. ['' @ name @ '']''"
| "warnMessage Bundle name = '' plugin process failed. '' @ name @ ''}''"

text \<open>
  The body of the loop of \<^verbatim>\<open>loadSettings\<close> (lines 191 to 202) for one plugin.
  When the hook raises or returns a falsy value, the variable \<^verbatim>\<open>Settings\<close>
  still refers to the object that the hook was passed, as the hook left it.
\<close>

definition configurationStep :: "Env \<Rightarrow> plugin_ref \<Rightarrow> Settings \<Rightarrow> Settings \<times> event list" where
  "configurationStep env r Settings =
     (case configuration (pluginAt env r) of
        None \<Rightarrow> (Settings, [])
      | Some hook \<Rightarrow>
          (case hook Settings of
             (left, Returns newSettings) \<Rightarrow>
               (defaultSettingDeepCopy newSettings,
                [CallConfiguration r Settings (left, Returns newSettings)])
           | (left, ReturnsFalsy) \<Rightarrow>
               (left, [CallConfiguration r Settings (left, ReturnsFalsy)])
           | (left, Raises) \<Rightarrow>
               (left, [CallConfiguration r Settings (left, Raises),
                       ConsoleWarn (warnMessage Configuration (pluginName (pluginAt env r)))])))"

text \<open>
  \<^verbatim>\<open>for (const plugin of Settings.plugins)\<close> walks the array that
  \<^verbatim>\<open>Settings.plugins\<close> held when the loop began, also after a hook has replaced
  \<^verbatim>\<open>Settings\<close>.
\<close>

fun configurationHooks :: "Env \<Rightarrow> plugin_ref list \<Rightarrow> Settings \<Rightarrow> Settings \<times> event list" where
  "configurationHooks env [] Settings = (Settings, [])"
| "configurationHooks env (r # rs) Settings =
     (let (Settings1, t1) = configurationStep env r Settings;
          (Settings2, t2) = configurationHooks env rs Settings1
      in (Settings2, t1 @ t2))"

text \<open>
  The hook slot that a checkpoint of \<^verbatim>\<open>bundle\<close> reads. The configuration
  checkpoint is not one of \<^verbatim>\<open>bundle\<close>; its hook takes the Settings.
\<close>

fun hookSlot :: "checkpoint \<Rightarrow> Plugin \<Rightarrow> State hook option" where
  "hookSlot BeforeBuild p = beforeBuild p"
| "hookSlot AfterBuild p = afterBuild p"
| "hookSlot Bundle p = bundleHook p"
| "hookSlot Configuration p = None"

text \<open>
  The body of the three hook loops of \<^verbatim>\<open>bundle\<close> (lines 68 to 79, 131 to 142,
  150 to 161) for one plugin.
\<close>

definition hookStep :: "Env \<Rightarrow> checkpoint \<Rightarrow> plugin_ref \<Rightarrow> State \<Rightarrow> State \<times> event list" where
  "hookStep env cp r state =
     (case hookSlot cp (pluginAt env r) of
        None \<Rightarrow> (state, [])
      | Some hook \<Rightarrow>
          (case hook state of
             (left, Returns newState) \<Rightarrow>
               (stateDeepCopy newState, [CallHook cp r state (left, Returns newState)])
           | (left, ReturnsFalsy) \<Rightarrow>
               (left, [CallHook cp r state (left, ReturnsFalsy)])
           | (left, Raises) \<Rightarrow>
               (left, [CallHook cp r state (left, Raises),
                       ConsoleWarn (warnMessage cp (pluginName (pluginAt env r)))])))"

fun runHooks :: "Env \<Rightarrow> checkpoint \<Rightarrow> plugin_ref list \<Rightarrow> State \<Rightarrow> State \<times> event list" where
  "runHooks env cp [] state = (state, [])"
| "runHooks env cp (r # rs) state =
     (let (state1, t1) = hookStep env cp r state;
          (state2, t2) = runHooks env cp rs state1
      in (state2, t1 @ t2))"

subsection \<open>Parsing and resolving\<close>

text \<open>
  The loop of lines 87 to 89: \<^verbatim>\<open>parseComponents\<close> fills the state in place;
  the first directory whose parse raises ends the loop with the error.
\<close>

fun parseComponentsLoop ::
  "Env \<Rightarrow> State \<Rightarrow> string list \<Rightarrow> Settings \<Rightarrow> (error + State) \<times> event list" where
  "parseComponentsLoop env state [] Settings = (Inr state, [])"
| "parseComponentsLoop env state (folder # rest) Settings =
     (case parseComponents env state folder Settings of
        Inl e \<Rightarrow> (Inl e, [ParseComponents state folder Settings (Inl e)])
      | Inr state1 \<Rightarrow>
          (let (res, t) = parseComponentsLoop env state1 rest Settings
           in (res, ParseComponents state folder Settings (Inr state1) # t)))"

text \<open>The loop of lines 96 to 98.\<close>

fun parsePagesLoop :: "Env \<Rightarrow> State \<Rightarrow> string list \<Rightarrow> (error + State) \<times> event list" where
  "parsePagesLoop env state [] = (Inr state, [])"
| "parsePagesLoop env state (dir # rest) =
     (case parsePages env state dir of
        Inl e \<Rightarrow> (Inl e, [ParsePages state dir (Inl e)])
      | Inr state1 \<Rightarrow>
          (let (res, t) = parsePagesLoop env state1 rest
           in (res, ParsePages state dir (Inr state1) # t)))"

text \<open>
  The loop of lines 107 to 116 over \<^verbatim>\<open>state.componentsList\<close>, returning the
  local array \<^verbatim>\<open>componentsList\<close>. The state is the same at every call of
  \<^verbatim>\<open>parseElements\<close>, since \<^verbatim>\<open>state.componentsList\<close> is assigned after
  the loop. \<^verbatim>\<open>parsedNode[0]\<close> of an empty array is \<^verbatim>\<open>undefined\<close>,
  and reading its \<^verbatim>\<open>outerHTML\<close> raises a TypeError.
\<close>

fun resolveComponents ::
  "Env \<Rightarrow> State \<Rightarrow> SpearlyJSGenerator \<Rightarrow> Settings \<Rightarrow> Component list
     \<Rightarrow> (error + Component list) \<times> event list" where
  "resolveComponents env state jsGenerator Settings [] = (Inr [], [])"
| "resolveComponents env state jsGenerator Settings (component # rest) =
     (let nodes = childNodes (Component.node component) in
      case parseElements env state nodes jsGenerator Settings of
        Inl e \<Rightarrow> (Inl e, [ParseElements state nodes (Inl e)])
      | Inr [] \<Rightarrow>
          (Inl (TypeError ''Cannot read properties of undefined''),
           [ParseElements state nodes (Inr []), ReadOuterHTML None])
      | Inr (first # others) \<Rightarrow>
          (let (res, t) = resolveComponents env state jsGenerator Settings rest
           in (case res of
                 Inl e \<Rightarrow> Inl e
               | Inr pushed \<Rightarrow>
                   Inr (\<lparr> Component.fname = Component.fname component,
                          rawData = outerHTML env first,
                          tagName = tagName component,
                          Component.node = first,
                          props = [] \<rparr> # pushed),
               ParseElements state nodes (Inr (first # others))
                 # ReadOuterHTML (Some first) # t)))"

text \<open>
  The loop of lines 120 to 124 over \<^verbatim>\<open>state.pagesList\<close>. The assignment to
  \<^verbatim>\<open>page.node.childNodes\<close> changes the page inside the state, so the second
  call of \<^verbatim>\<open>parseElements\<close>, and every call for a later page, is passed the
  state with the pages resolved so far. \<open>seen\<close> are the pages already walked,
  \<open>page # rest\<close> those to come: \<^verbatim>\<open>state.pagesList\<close> is
  \<open>seen @ page # rest\<close> when the loop reaches \<open>page\<close>.
\<close>

fun resolvePages ::
  "Env \<Rightarrow> State \<Rightarrow> SpearlyJSGenerator \<Rightarrow> Settings \<Rightarrow> Page list \<Rightarrow> Page list
     \<Rightarrow> (error + State) \<times> event list" where
  "resolvePages env state jsGenerator Settings seen [] = (Inr state, [])"
| "resolvePages env state jsGenerator Settings seen (page # rest) =
     (let nodes = childNodes (Page.node page) in
      case parseElements env state nodes jsGenerator Settings of
        Inl e \<Rightarrow> (Inl e, [ParseElements state nodes (Inl e)])
      | Inr nodes1 \<Rightarrow>
          (let page1 = page\<lparr>Page.node := setChildNodes (Page.node page) nodes1\<rparr>;
               state1 = state\<lparr>pagesList := seen @ page1 # rest\<rparr>
           in case parseElements env state1 nodes1 jsGenerator Settings of
                Inl e \<Rightarrow>
                  (Inl e, [ParseElements state nodes (Inr nodes1),
                           ParseElements state1 nodes1 (Inl e)])
              | Inr nodes2 \<Rightarrow>
                  (let page2 = page1\<lparr>Page.node := setChildNodes (Page.node page1) nodes2\<rparr>;
                       state2 = state1\<lparr>pagesList := seen @ page2 # rest\<rparr>;
                       (res, t) =
                         resolvePages env state2 jsGenerator Settings (seen @ [page2]) rest
                   in (res, ParseElements state nodes (Inr nodes1)
                            # ParseElements state1 nodes1 (Inr nodes2) # t))))"

subsection \<open>\<^verbatim>\<open>bundle\<close>\<close>

text \<open>The state that \<^verbatim>\<open>bundle\<close> constructs (lines 54 to 62).\<close>

definition parseEmpty :: Element where
  "parseEmpty = Element [] []"

definition initialState :: State where
  "initialState =
     \<lparr> pagesList = [], componentsList = [], body = parseEmpty, globalProps = [],
       out = \<lparr> assetsFiles = [] \<rparr> \<rparr>"

text \<open>
  \<^verbatim>\<open>bundle\<close> (lines 53 to 165). It reads the global \<^verbatim>\<open>Settings\<close>, which
  is its argument here. \<open>tr\<close> is the trace so far. The result is what the promise
  settles to: \<open>Returned\<close> a boolean, or \<open>Raised\<close> for an exception that no
  \<^verbatim>\<open>try\<close> of \<^verbatim>\<open>bundle\<close> catches.
\<close>

definition bundle' :: "Env \<Rightarrow> Settings \<Rightarrow> bool outcome \<times> event list" where
  "bundle' env Settings =
     (let state = initialState;
          jsGenerator =
            SpearlyJSGenerator (spearlyAuthKey Settings) (apiDomain Settings)
              (analysysDomain Settings);
          (state, tr) = runHooks env BeforeBuild (plugins Settings) state
      in case createDir env Settings of
           Some e \<Rightarrow> (Raised e, tr @ [CreateDir Settings (Some e)])
         | None \<Rightarrow>
      (let tr = tr @ [CreateDir Settings None]
       in case parseComponentsLoop env state (componentsFolder Settings) Settings of
            (Inl e, t) \<Rightarrow> (Returned False, tr @ t @ [LoggerError e])
          | (Inr state, t) \<Rightarrow>
      (let tr = tr @ t
       in case parsePagesLoop env state (srcDir Settings) of
            (Inl e, t) \<Rightarrow> (Returned False, tr @ t @ [LoggerError e])
          | (Inr state, t) \<Rightarrow>
      (let tr = tr @ t
       in case resolveComponents env state jsGenerator Settings (componentsList state) of
            (Inl e, t) \<Rightarrow> (Raised e, tr @ t)
          | (Inr rebuilt, t) \<Rightarrow>
      (let tr = tr @ t;
           state = state\<lparr>componentsList := rebuilt\<rparr>
       in case resolvePages env state jsGenerator Settings [] (pagesList state) of
            (Inl e, t) \<Rightarrow> (Raised e, tr @ t)
          | (Inr state, t) \<Rightarrow>
      (let tr = tr @ t
       in case generateAliasPagesFromPagesList env state jsGenerator Settings of
            Inl e \<Rightarrow> (Raised e, tr @ [GenerateAliasPages state (Inl e)])
          | Inr pages \<Rightarrow>
      (let tr = tr @ [GenerateAliasPages state (Inr pages)];
           state = state\<lparr>pagesList := pages\<rparr>;
           (state, t) = runHooks env AfterBuild (plugins Settings) state;
           tr = tr @ t
       in case dumpPages env state (libDirname env) Settings of
            Some e \<Rightarrow> (Raised e, tr @ [DumpPages state (Some e)])
          | None \<Rightarrow>
      (let tr = tr @ [DumpPages state None];
           (state, t) = runHooks env Bundle (plugins Settings) state
       in (Returned True, tr @ t)))))))))"

subsection \<open>\<^verbatim>\<open>loadSettings\<close> and \<^verbatim>\<open>magic\<close>\<close>

text \<open>
  \<^verbatim>\<open>initializeArgument\<close> (lines 26 to 51). \<open>dirname\<close> is the module's
  variable of that name, \<^verbatim>\<open>process.cwd()\<close> when the module is loaded; an
  empty \<^verbatim>\<open>args.src\<close> is falsy.
\<close>

definition initializeArgument :: "Env \<Rightarrow> string \<Rightarrow> Args \<Rightarrow> string \<times> Settings" where
  "initializeArgument env dirname args =
     (let dirname =
            (case src args of
               None \<Rightarrow> dirname
             | Some s \<Rightarrow> if s = [] then dirname else pathResolve env [s])
      in (dirname,
          \<lparr> projectName = ''Spear CLI'',
            settingsFile = ''spear.config'',
            pagesFolder = dirname @ ''/src/pages'',
            componentsFolder = [dirname @ ''/src/components''],
            srcDir = [dirname @ ''/src''],
            distDir = dirname @ ''/dist'',
            entry = dirname @ ''/src/pages/index.?(spear|html)'',
            template = dirname @ ''/public/index.html'',
            spearlyAuthKey = [],
            port = 8080,
            host = ''0.0.0.0'',
            crossOriginIsolation = False,
            apiDomain = ''api.spearly.com'',
            analysysDomain = ''analytics.spearly.com'',
            generateSitemap = False,
            siteURL = [],
            rootDir = dirname,
            plugins = [],
            quiteMode = False \<rparr>))"

text \<open>\<^verbatim>\<open>loadSettingsFromFile\<close> (lines 167 to 174).\<close>

definition loadSettingsFromFile ::
  "Env \<Rightarrow> string \<Rightarrow> Settings \<Rightarrow> Settings outcome \<times> event list" where
  "loadSettingsFromFile env dirname Settings =
     (let pattern = dirname @ ''/'' @ settingsFile Settings @ ''.?(mjs|js|json)''
      in case loadFile env pattern of
           Inl e \<Rightarrow> (Raised e, [LoadFile pattern (Inl e)])
         | Inr None \<Rightarrow> (Returned Settings, [LoadFile pattern (Inr None)])
         | Inr (Some data) \<Rightarrow>
             (Returned (foldl assign Settings data), [LoadFile pattern (Inr (Some data))]))"

text \<open>
  \<^verbatim>\<open>loadSettings\<close> (lines 176 to 204): the settings file, the filter of
  \<^verbatim>\<open>srcDir\<close>, the configuration hooks. The assignment to
  \<^verbatim>\<open>logger.isQuite\<close> changes the logger only and is left out.
\<close>

definition loadSettings ::
  "Env \<Rightarrow> string \<Rightarrow> Settings \<Rightarrow> Settings outcome \<times> event list" where
  "loadSettings env dirname Settings =
     (case loadSettingsFromFile env dirname Settings of
        (Raised e, tr) \<Rightarrow> (Raised e, tr)
      | (Returned Settings, tr) \<Rightarrow>
          (let Settings = Settings\<lparr>srcDir := srcDirFilter (srcDir Settings)\<rparr>;
               (Settings, t) = configurationHooks env (plugins Settings) Settings
           in (Returned Settings, tr @ t)))"

text \<open>
  The callback that \<^verbatim>\<open>magic\<close> registers with \<^verbatim>\<open>watch\<close> (lines 231
  to 238), run at a change of the file \<open>name\<close>. It is passed nothing of the last
  pass: it reads the module's \<open>dirname\<close> and \<^verbatim>\<open>Settings\<close>, which it
  returns as it leaves them. \<^verbatim>\<open>bundle()\<close> is not awaited, and what it
  settles to is dropped.
\<close>

definition watchCallback ::
  "Env \<Rightarrow> string \<Rightarrow> Settings \<Rightarrow> string \<Rightarrow> Settings \<times> event list" where
  "watchCallback env dirname Settings name =
     (let tr = [LoggerLog (''changed: '' @ name)]
      in case loadSettings env dirname Settings of
           (Raised e, t) \<Rightarrow> (Settings, tr @ t)
         | (Returned Settings, t) \<Rightarrow> (Settings, tr @ t @ snd (bundle' env Settings)))"


subsection \<open>Objects and references\<close>

text \<open>
  The functions above work on the content of the state. Where the identity of an object
  matters, the objects are the cells of a store, a reference is the index of a cell, and
  a new object is a new cell at the end.

  Modelled from the spec: \<^verbatim>\<open>stateDeepCopy\<close> and
  \<^verbatim>\<open>defaultSettingDeepCopy\<close> (\<^verbatim>\<open>utils/util.js\<close>, not among the
  sources) as the allocation of "a deep structural copy": a new object with the content
  of the object \<open>r\<close>, which must be one of the store.
\<close>

definition deepCopyAt :: "'a list \<Rightarrow> nat \<Rightarrow> ('a list \<times> nat) option" where
  "deepCopyAt objs r =
     (if r < length objs then Some (objs @ [objs ! r], length objs) else None)"

text \<open>
  \<^verbatim>\<open>if (newState) { state = stateDeepCopy(newState) }\<close> (lines 71 to 73, and
  the same at the other three checkpoints) on references: \<open>state\<close> is the reference
  held by the pipeline's variable, \<open>newState\<close> what the hook returned, \<open>None\<close>
  for a falsy value. The result is the store and the variable's reference afterwards.
\<close>

definition replaceIfTruthy :: "'a list \<Rightarrow> nat \<Rightarrow> nat option \<Rightarrow> ('a list \<times> nat) option" where
  "replaceIfTruthy objs state newState =
     (case newState of
        None \<Rightarrow> Some (objs, state)
      | Some r \<Rightarrow> deepCopyAt objs r)"

subsection \<open>Reading a trace\<close>

text \<open>
  The error of a call that raised into \<^verbatim>\<open>bundle\<close>: of a parse call, which
  \<^verbatim>\<open>bundle\<close> catches, or of another collaborator. A hook that raises is not
  among them.
\<close>

datatype fault = ParseFault error | OtherFault error

fun faultOf :: "event \<Rightarrow> fault option" where
  "faultOf (CreateDir S (Some e)) = Some (OtherFault e)"
| "faultOf (ParseComponents s d S (Inl e)) = Some (ParseFault e)"
| "faultOf (ParsePages s d (Inl e)) = Some (ParseFault e)"
| "faultOf (ParseElements s ns (Inl e)) = Some (OtherFault e)"
| "faultOf (ReadOuterHTML None) =
     Some (OtherFault (TypeError ''Cannot read properties of undefined''))"
| "faultOf (GenerateAliasPages s (Inl e)) = Some (OtherFault e)"
| "faultOf (DumpPages s (Some e)) = Some (OtherFault e)"
| "faultOf ev = None"

text \<open>The events that follow the resolution of the pages in a pass.\<close>

fun isLate :: "event \<Rightarrow> bool" where
  "isLate (CallHook AfterBuild r s res) = True"
| "isLate (CallHook Bundle r s res) = True"
| "isLate (DumpPages s res) = True"
| "isLate ev = False"

text \<open>The state that a call was passed, and the first state passed in a trace.\<close>

fun stateIn :: "event \<Rightarrow> State option" where
  "stateIn (CallHook cp r s res) = Some s"
| "stateIn (ParseComponents s d S res) = Some s"
| "stateIn (ParsePages s d res) = Some s"
| "stateIn (ParseElements s ns res) = Some s"
| "stateIn (GenerateAliasPages s res) = Some s"
| "stateIn (DumpPages s res) = Some s"
| "stateIn ev = None"

fun firstState :: "event list \<Rightarrow> State option" where
  "firstState [] = None"
| "firstState (ev # tr) = (case stateIn ev of Some s \<Rightarrow> Some s | None \<Rightarrow> firstState tr)"

text \<open>The calls of the resolver in a trace.\<close>

fun isResolverCall :: "event \<Rightarrow> bool" where
  "isResolverCall (ParseElements s ns res) = True"
| "isResolverCall ev = False"

text \<open>
  The stage of the build that an event belongs to; a console or logger message belongs
  to none, nor does the read of \<^verbatim>\<open>outerHTML\<close>.
\<close>

datatype stage =
    SettingsLoad
  | Hook checkpoint plugin_ref
  | OutputDir
  | Parsing
  | Resolving
  | Aliasing
  | Output

fun stageOf :: "event \<Rightarrow> stage option" where
  "stageOf (LoadFile pattern res) = Some SettingsLoad"
| "stageOf (CallConfiguration r S res) = Some (Hook Configuration r)"
| "stageOf (CallHook cp r s res) = Some (Hook cp r)"
| "stageOf (CreateDir S res) = Some OutputDir"
| "stageOf (ParseComponents s d S res) = Some Parsing"
| "stageOf (ParsePages s d res) = Some Parsing"
| "stageOf (ParseElements s ns res) = Some Resolving"
| "stageOf (GenerateAliasPages s res) = Some Aliasing"
| "stageOf (DumpPages s res) = Some Output"
| "stageOf ev = None"

definition stages :: "event list \<Rightarrow> stage list" where
  "stages tr = List.map_filter stageOf tr"

text \<open>
  Whether a call of a configuration hook left \<^verbatim>\<open>srcDir\<close> as it was passed,
  in the object it was passed and in the one it returned.
\<close>

fun keepsSrcDir :: "event \<Rightarrow> bool" where
  "keepsSrcDir (CallConfiguration r S (left, Returns new)) =
     (srcDir left = srcDir S \<and> srcDir new = srcDir S)"
| "keepsSrcDir (CallConfiguration r S (left, c)) = (srcDir left = srcDir S)"
| "keepsSrcDir ev = True"

subsection \<open>What the loops build\<close>

text \<open>The component that the loop of lines 107 to 116 pushes for \<open>c\<close>, given the first
  resolved node \<open>n\<close>.\<close>

definition rebuiltFrom :: "Env \<Rightarrow> Component \<Rightarrow> Element \<Rightarrow> Component" where
  "rebuiltFrom env c n =
     \<lparr> Component.fname = Component.fname c, rawData = outerHTML env n, tagName = tagName c,
       Component.node = n, props = [] \<rparr>"

text \<open>The page after \<^verbatim>\<open>page.node.childNodes = ns\<close>.\<close>

definition withChildNodes :: "Page \<Rightarrow> Element list \<Rightarrow> Page" where
  "withChildNodes page ns = page\<lparr>Page.node := setChildNodes (Page.node page) ns\<rparr>"

text \<open>
  What the loop of lines 120 to 124 does with one page: the page as the loop found it,
  the state and the result of the first call of \<^verbatim>\<open>parseElements\<close>, the state
  and the result of the second call. \<open>passes\<close> are the two calls, the second on
  the result of the first; \<open>resolvedPage\<close> is the page as the loop leaves it.
\<close>

type_synonym resolved = "Page \<times> State \<times> Element list \<times> State \<times> Element list"

fun passes :: "resolved \<Rightarrow> event list" where
  "passes (page, s1, nodes1, s2, nodes2) =
     [ParseElements s1 (childNodes (Page.node page)) (Inr nodes1),
      ParseElements s2 nodes1 (Inr nodes2)]"

fun resolvedPage :: "resolved \<Rightarrow> Page" where
  "resolvedPage (page, s1, nodes1, s2, nodes2) = withChildNodes page nodes2"

text \<open>The generator that \<^verbatim>\<open>bundle\<close> constructs from the Settings (line 64).\<close>

definition jsGeneratorOf :: "Settings \<Rightarrow> SpearlyJSGenerator" where
  "jsGeneratorOf S = SpearlyJSGenerator (spearlyAuthKey S) (apiDomain S) (analysysDomain S)"

text \<open>
  The hook calls of one checkpoint over a plugin list: one for each plugin that has the
  slot, in the order of the list, as many times as the list names it. \<open>passStages\<close>
  is the order of the stages of one complete pass of \<^verbatim>\<open>bundle\<close> that makes
  \<open>k\<close> parse calls and \<open>j\<close> resolver calls.
\<close>

fun hasHook :: "Env \<Rightarrow> checkpoint \<Rightarrow> plugin_ref \<Rightarrow> bool" where
  "hasHook env Configuration r = (configuration (pluginAt env r) \<noteq> None)"
| "hasHook env cp r = (hookSlot cp (pluginAt env r) \<noteq> None)"

definition checkpointCalls :: "Env \<Rightarrow> checkpoint \<Rightarrow> plugin_ref list \<Rightarrow> stage list" where
  "checkpointCalls env cp rs = map (Hook cp) (filter (hasHook env cp) rs)"


subsection \<open>Example plugins, collaborators and settings\<close>

definition noHooks :: Plugin where
  "noHooks =
     \<lparr> pluginName = ''none'', configuration = None, beforeBuild = None,
       afterBuild = None, bundleHook = None \<rparr>"

text \<open>Collaborators that find nothing, change nothing and never raise; no plugin has a hook.\<close>

definition quietEnv :: Env where
  "quietEnv =
     \<lparr> cwd = ''/proj'',
       pathResolve = concat,
       libDirname = ''/lib'',
       pluginAt = (\<lambda>r. noHooks),
       loadFile = (\<lambda>pattern. Inr None),
       createDir = (\<lambda>S. None),
       parseComponents = (\<lambda>state folder S. Inr state),
       parsePages = (\<lambda>state dir. Inr state),
       parseElements = (\<lambda>state nodes g S. Inr nodes),
       outerHTML = rawTagName,
       generateAliasPagesFromPagesList = (\<lambda>state g S. Inr (pagesList state)),
       dumpPages = (\<lambda>state lib S. None) \<rparr>"

definition buildArgs :: Args where
  "buildArgs = \<lparr> action = ''build'', src = None, port = None \<rparr>"

definition defaultSettings :: Settings where
  "defaultSettings = snd (initializeArgument quietEnv ''/proj'' buildArgs)"

definition fourDirs :: "string list" where
  "fourDirs = [''/a'', ''/a/b'', ''/a/components'', ''/a/components/sub'']"

text \<open>
  Four plugins. The first writes into the object it is passed and raises; the second
  observes and returns nothing; the third writes into the state and returns nothing;
  the fourth returns another object.
\<close>

definition touchedState :: State where
  "touchedState = initialState\<lparr>globalProps := [(''touched'', ''yes'')]\<rparr>"

definition throwingPlugin :: Plugin where
  "throwingPlugin =
     \<lparr> pluginName = ''first'',
       configuration = Some (\<lambda>S. (S\<lparr>projectName := ''touched''\<rparr>, Raises)),
       beforeBuild = Some (\<lambda>s. (s\<lparr>globalProps := [(''touched'', ''yes'')]\<rparr>, Raises)),
       afterBuild = None,
       bundleHook = None \<rparr>"

definition observingPlugin :: Plugin where
  "observingPlugin =
     \<lparr> pluginName = ''second'',
       configuration = Some (\<lambda>S. (S, ReturnsFalsy)),
       beforeBuild = Some (\<lambda>s. (s, ReturnsFalsy)),
       afterBuild = Some (\<lambda>s. (s, ReturnsFalsy)),
       bundleHook = Some (\<lambda>s. (s, ReturnsFalsy)) \<rparr>"

definition writingPlugin :: Plugin where
  "writingPlugin =
     \<lparr> pluginName = ''writer'',
       configuration = None,
       beforeBuild = Some (\<lambda>s. (s\<lparr>globalProps := [(''touched'', ''yes'')]\<rparr>, ReturnsFalsy)),
       afterBuild = None,
       bundleHook = None \<rparr>"

definition replacingPlugin :: Plugin where
  "replacingPlugin =
     \<lparr> pluginName = ''replacer'',
       configuration = Some (\<lambda>S. (S, Returns (S\<lparr>projectName := ''renamed''\<rparr>))),
       beforeBuild = Some (\<lambda>s. (s, Returns touchedState)),
       afterBuild = None,
       bundleHook = None \<rparr>"

definition pluginsEnv :: Env where
  "pluginsEnv =
     quietEnv\<lparr>pluginAt :=
       (\<lambda>r. if r = 10 then throwingPlugin
            else if r = 20 then observingPlugin
            else if r = 30 then writingPlugin
            else if r = 40 then replacingPlugin
            else noHooks)\<rparr>"



text \<open>
  A site of one component and one page. The resolver puts a node \<^verbatim>\<open>resolved\<close>
  in front of the nodes it is given.
\<close>

definition boxComponent :: Component where
  "boxComponent =
     \<lparr> Component.fname = ''box.spear'', rawData = ''raw'', tagName = ''c-box'',
       Component.node = Element ''root'' [Element ''div'' []], props = [(''k'', ''v'')] \<rparr>"

definition indexPage :: Page where
  "indexPage = \<lparr> Page.fname = ''index.html'', Page.node = Element ''html'' [Element ''c-box'' []] \<rparr>"

definition siteEnv :: Env where
  "siteEnv =
     quietEnv\<lparr>
       parseComponents :=
         (\<lambda>state folder S. Inr (state\<lparr>componentsList := componentsList state @ [boxComponent]\<rparr>)),
       parsePages := (\<lambda>state dir. Inr (state\<lparr>pagesList := pagesList state @ [indexPage]\<rparr>)),
       parseElements := (\<lambda>state nodes g S. Inr (Element ''resolved'' [] # nodes))\<rparr>"

definition parsedSite :: State where
  "parsedSite = initialState\<lparr>pagesList := [indexPage], componentsList := [boxComponent]\<rparr>"

definition resolvedBox :: Component where
  "resolvedBox =
     \<lparr> Component.fname = ''box.spear'', rawData = ''resolved'', tagName = ''c-box'',
       Component.node = Element ''resolved'' [], props = [] \<rparr>"


text \<open>Settings files that configure \<^verbatim>\<open>srcDir\<close>, and collaborators that raise.\<close>

definition twoDirsEnv :: Env where
  "twoDirsEnv = quietEnv\<lparr>loadFile := (\<lambda>pattern. Inr (Some [SrcDir [''/a'', ''/a/b'']]))\<rparr>"

definition threeDirsEnv :: Env where
  "threeDirsEnv =
     quietEnv\<lparr>loadFile :=
       (\<lambda>pattern. Inr (Some [SrcDir [''/x/components'', ''/x/components/deep'', ''/x/pages'']]))\<rparr>"

definition aliasFailsEnv :: Env where
  "aliasFailsEnv =
     quietEnv\<lparr>generateAliasPagesFromPagesList := (\<lambda>state g S. Inl (Failure ''alias''))\<rparr>"

definition parseFailsEnv :: Env where
  "parseFailsEnv = quietEnv\<lparr>parseComponents := (\<lambda>state folder S. Inl (Failure ''unreadable''))\<rparr>"

section \<open>Properties\<close>

subsection \<open>The filter of \<^verbatim>\<open>srcDir\<close>\<close>

lemma some_callback_iff:
  "list_ex (\<lambda>B.
       if A \<noteq> B \<and> \<not> endsWith B c then False
       else A \<noteq> B \<and> startsWith A B) dirs
   \<longleftrightarrow> (\<exists>B\<in>set dirs. B \<noteq> A \<and> startsWith A B \<and> endsWith B c)"
  by (auto simp: list_ex_iff)

lemma srcDirFilter_char:
  "srcDirFilter dirs =
     filter (\<lambda>A. \<not> (\<exists>B\<in>set dirs. B \<noteq> A \<and> startsWith A B \<and> endsWith B ''components'')) dirs"
  unfolding srcDirFilter_def some_callback_iff ..

lemma srcDirFilter_invariant:
  "\<not> (\<exists>A\<in>set (srcDirFilter dirs). \<exists>B\<in>set (srcDirFilter dirs).
         B \<noteq> A \<and> startsWith A B \<and> endsWith B ''components'')"
  by (auto simp: srcDirFilter_char)

subsection \<open>The hook loops\<close>

lemma hookStep_cases:
  obtains (absent) "hookSlot cp (pluginAt env r) = None" "hookStep env cp r s = (s, [])"
  | (returns) h left new where "hookSlot cp (pluginAt env r) = Some h" "h s = (left, Returns new)"
      "hookStep env cp r s = (stateDeepCopy new, [CallHook cp r s (left, Returns new)])"
  | (falsy) h left where "hookSlot cp (pluginAt env r) = Some h" "h s = (left, ReturnsFalsy)"
      "hookStep env cp r s = (left, [CallHook cp r s (left, ReturnsFalsy)])"
  | (raises) h left where "hookSlot cp (pluginAt env r) = Some h" "h s = (left, Raises)"
      "hookStep env cp r s =
         (left, [CallHook cp r s (left, Raises),
                 ConsoleWarn (warnMessage cp (pluginName (pluginAt env r)))])"
proof (cases "hookSlot cp (pluginAt env r)")
  case None
  then show ?thesis using absent by (simp add: hookStep_def)
next
  case (Some h)
  obtain left c where hs: "h s = (left, c)" by (cases "h s")
  show ?thesis
  proof (cases c)
    case Raises
    with Some hs show ?thesis using raises by (simp add: hookStep_def)
  next
    case ReturnsFalsy
    with Some hs show ?thesis using falsy by (simp add: hookStep_def)
  next
    case (Returns new)
    with Some hs show ?thesis using returns by (simp add: hookStep_def)
  qed
qed

lemma configurationStep_cases:
  obtains (absent) "configuration (pluginAt env r) = None" "configurationStep env r S = (S, [])"
  | (returns) h left new where "configuration (pluginAt env r) = Some h"
      "h S = (left, Returns new)"
      "configurationStep env r S =
         (defaultSettingDeepCopy new, [CallConfiguration r S (left, Returns new)])"
  | (falsy) h left where "configuration (pluginAt env r) = Some h" "h S = (left, ReturnsFalsy)"
      "configurationStep env r S = (left, [CallConfiguration r S (left, ReturnsFalsy)])"
  | (raises) h left where "configuration (pluginAt env r) = Some h" "h S = (left, Raises)"
      "configurationStep env r S =
         (left, [CallConfiguration r S (left, Raises),
                 ConsoleWarn (warnMessage Configuration (pluginName (pluginAt env r)))])"
proof (cases "configuration (pluginAt env r)")
  case None
  then show ?thesis using absent by (simp add: configurationStep_def)
next
  case (Some h)
  obtain left c where hs: "h S = (left, c)" by (cases "h S")
  show ?thesis
  proof (cases c)
    case Raises
    with Some hs show ?thesis using raises by (simp add: configurationStep_def)
  next
    case ReturnsFalsy
    with Some hs show ?thesis using falsy by (simp add: configurationStep_def)
  next
    case (Returns new)
    with Some hs show ?thesis using returns by (simp add: configurationStep_def)
  qed
qed






lemma hookStep_events:
  "hookStep env cp r s = (s', t) \<Longrightarrow> ev \<in> set t \<Longrightarrow>
     (\<exists>a res. ev = CallHook cp r a res) \<or> (\<exists>m. ev = ConsoleWarn m)"
  by (cases rule: hookStep_cases [of cp env r s]) auto

lemma runHooks_events:
  "runHooks env cp rs s = (s', t) \<Longrightarrow> ev \<in> set t \<Longrightarrow>
     (\<exists>r a res. ev = CallHook cp r a res) \<or> (\<exists>m. ev = ConsoleWarn m)"
proof (induction rs arbitrary: s s' t)
  case Nil
  then show ?case by simp
next
  case (Cons r rs)
  obtain s1 t1 where step: "hookStep env cp r s = (s1, t1)" by (cases "hookStep env cp r s")
  obtain s2 t2 where rest: "runHooks env cp rs s1 = (s2, t2)" by (cases "runHooks env cp rs s1")
  from Cons.prems step rest have "t = t1 @ t2" by simp
  with Cons.prems(2) consider "ev \<in> set t1" | "ev \<in> set t2" by auto
  then show ?case
  proof cases
    case 1
    with hookStep_events [OF step] show ?thesis by blast
  next
    case 2
    with Cons.IH [OF rest] show ?thesis by blast
  qed
qed

lemma runHooks_no_fault:
  "runHooks env cp rs s = (s', t) \<Longrightarrow> ev \<in> set t \<Longrightarrow> faultOf ev = None"
  by (drule (1) runHooks_events) auto

lemma runHooks_not_late:
  "runHooks env BeforeBuild rs s = (s', t) \<Longrightarrow> ev \<in> set t \<Longrightarrow> \<not> isLate ev"
  by (drule (1) runHooks_events) auto



lemma no_parse_fault_hooks:
  "runHooks env cp rs s = (s', t) \<Longrightarrow> ev \<in> set t \<Longrightarrow> faultOf ev \<noteq> Some (ParseFault e)"
  by (drule (1) runHooks_events) auto

lemma configurationHooks_events:
  "configurationHooks env rs S = (S', t) \<Longrightarrow> ev \<in> set t \<Longrightarrow> stateIn ev = None"
proof (induction rs arbitrary: S S' t)
  case Nil
  then show ?case by simp
next
  case (Cons r rs)
  obtain S1 t1 where step: "configurationStep env r S = (S1, t1)"
    by (cases "configurationStep env r S")
  obtain S2 t2 where rest: "configurationHooks env rs S1 = (S2, t2)"
    by (cases "configurationHooks env rs S1")
  from Cons.prems step rest have "t = t1 @ t2" by simp
  with Cons.prems(2) consider "ev \<in> set t1" | "ev \<in> set t2" by auto
  then show ?case
  proof cases
    case 1
    with step show ?thesis
      by (cases rule: configurationStep_cases [of env r S]) auto
  next
    case 2
    with Cons.IH [OF rest] show ?thesis by blast
  qed
qed

lemma configurationStep_srcDir:
  "configurationStep env r S = (S', t) \<Longrightarrow> \<forall>ev\<in>set t. keepsSrcDir ev \<Longrightarrow>
     srcDir S' = srcDir S"
  by (cases rule: configurationStep_cases [of env r S])
     (auto simp: defaultSettingDeepCopy_def)

lemma configurationHooks_srcDir:
  "configurationHooks env rs S = (S', t) \<Longrightarrow> \<forall>ev\<in>set t. keepsSrcDir ev \<Longrightarrow>
     srcDir S' = srcDir S"
proof (induction rs arbitrary: S S' t)
  case Nil
  then show ?case by simp
next
  case (Cons r rs)
  obtain S1 t1 where step: "configurationStep env r S = (S1, t1)"
    by (cases "configurationStep env r S")
  obtain S2 t2 where rest: "configurationHooks env rs S1 = (S2, t2)"
    by (cases "configurationHooks env rs S1")
  from Cons.prems step rest have "t = t1 @ t2" "S' = S2" by simp_all
  with Cons.prems(2) have k1: "\<forall>ev\<in>set t1. keepsSrcDir ev" and k2: "\<forall>ev\<in>set t2. keepsSrcDir ev"
    by auto
  from configurationStep_srcDir [OF step k1] Cons.IH [OF rest k2] \<open>S' = S2\<close>
  show ?case by simp
qed

subsection \<open>The stages of a trace\<close>

lemma stages_append: "stages (xs @ ys) = stages xs @ stages ys"
  by (simp add: stages_def map_filter_def)

lemma stages_Nil: "stages [] = []"
  by (simp add: stages_def map_filter_def)

lemma stages_Cons:
  "stages (ev # tr) = (case stageOf ev of None \<Rightarrow> stages tr | Some k \<Rightarrow> k # stages tr)"
  by (simp add: stages_def map_filter_def split: option.splits)




lemma checkpointCalls_Cons:
  "checkpointCalls env cp (r # rs) = checkpointCalls env cp [r] @ checkpointCalls env cp rs"
  by (simp add: checkpointCalls_def)

lemma configurationStep_stages:
  "stages (snd (configurationStep env r S)) = checkpointCalls env Configuration [r]"
  by (cases rule: configurationStep_cases [of env r S])
     (simp_all add: stages_Cons stages_Nil checkpointCalls_def)

lemma configurationHooks_stages:
  "stages (snd (configurationHooks env rs S)) = checkpointCalls env Configuration rs"
proof (induction rs arbitrary: S)
  case Nil
  then show ?case by (simp add: stages_Nil checkpointCalls_def)
next
  case (Cons r rs)
  obtain S1 t1 where step: "configurationStep env r S = (S1, t1)"
    by (cases "configurationStep env r S")
  obtain S2 t2 where rest: "configurationHooks env rs S1 = (S2, t2)"
    by (cases "configurationHooks env rs S1")
  from configurationStep_stages [of env r S] step
  have "stages t1 = checkpointCalls env Configuration [r]" by simp
  moreover from Cons.IH [of S1] rest
  have "stages t2 = checkpointCalls env Configuration rs" by simp
  ultimately show ?case using step rest
    by (simp add: stages_append checkpointCalls_Cons [of env Configuration r rs])
qed

subsection \<open>The parse loops\<close>

lemma parseComponentsLoop_events:
  "parseComponentsLoop env s dirs S = (res, t) \<Longrightarrow> ev \<in> set t \<Longrightarrow>
     \<exists>a d r. ev = ParseComponents a d S r"
proof (induction dirs arbitrary: s res t)
  case Nil
  then show ?case by simp
next
  case (Cons d dirs)
  show ?case
  proof (cases "parseComponents env s d S")
    case (Inl e)
    with Cons.prems show ?thesis by auto
  next
    case (Inr s1)
    obtain res1 t1 where rest: "parseComponentsLoop env s1 dirs S = (res1, t1)"
      by (cases "parseComponentsLoop env s1 dirs S")
    with Cons.prems Inr have "t = ParseComponents s d S (Inr s1) # t1" by simp
    with Cons.prems(2) Cons.IH [OF rest] show ?thesis by auto
  qed
qed

lemma parseComponentsLoop_ok:
  "parseComponentsLoop env s dirs S = (Inr s', t) \<Longrightarrow>
     (\<forall>ev\<in>set t. faultOf ev = None) \<and> stages t = replicate (length dirs) Parsing"
proof (induction dirs arbitrary: s t)
  case Nil
  then show ?case by (simp add: stages_Nil)
next
  case (Cons d dirs)
  show ?case
  proof (cases "parseComponents env s d S")
    case (Inl e)
    with Cons.prems show ?thesis by simp
  next
    case (Inr s1)
    obtain res1 t1 where rest: "parseComponentsLoop env s1 dirs S = (res1, t1)"
      by (cases "parseComponentsLoop env s1 dirs S")
    with Cons.prems Inr have t: "t = ParseComponents s d S (Inr s1) # t1" and "res1 = Inr s'"
      by simp_all
    with rest Cons.IH [of s1 t1] show ?thesis by (simp add: stages_Cons)
  qed
qed

lemma parseComponentsLoop_fails:
  "parseComponentsLoop env s dirs S = (Inl e, t) \<Longrightarrow>
     \<exists>pre a d. t = pre @ [ParseComponents a d S (Inl e)]
       \<and> (\<forall>ev\<in>set pre. faultOf ev = None)
       \<and> (\<exists>k. stages t = replicate k Parsing)"
proof (induction dirs arbitrary: s t)
  case Nil
  then show ?case by simp
next
  case (Cons d dirs)
  show ?case
  proof (cases "parseComponents env s d S")
    case (Inl e')
    with Cons.prems have "t = [] @ [ParseComponents s d S (Inl e)]" by auto
    moreover from this have "stages t = replicate 1 Parsing" by (simp add: stages_Cons stages_Nil)
    ultimately show ?thesis by (metis empty_iff empty_set)
  next
    case (Inr s1)
    obtain res1 t1 where rest: "parseComponentsLoop env s1 dirs S = (res1, t1)"
      by (cases "parseComponentsLoop env s1 dirs S")
    with Cons.prems Inr have t: "t = ParseComponents s d S (Inr s1) # t1" and "res1 = Inl e"
      by simp_all
    with rest Cons.IH [of s1 t1] obtain pre a d' k where
      "t1 = pre @ [ParseComponents a d' S (Inl e)]" "\<forall>ev\<in>set pre. faultOf ev = None"
      "stages t1 = replicate k Parsing" by blast
    with t have "t = (ParseComponents s d S (Inr s1) # pre) @ [ParseComponents a d' S (Inl e)]"
      "\<forall>ev\<in>set (ParseComponents s d S (Inr s1) # pre). faultOf ev = None"
      "stages t = replicate (Suc k) Parsing"
      by (simp_all add: stages_Cons)
    then show ?thesis by blast
  qed
qed

lemma parsePagesLoop_events:
  "parsePagesLoop env s dirs = (res, t) \<Longrightarrow> ev \<in> set t \<Longrightarrow>
     \<exists>a d r. ev = ParsePages a d r"
proof (induction dirs arbitrary: s res t)
  case Nil
  then show ?case by simp
next
  case (Cons d dirs)
  show ?case
  proof (cases "parsePages env s d")
    case (Inl e)
    with Cons.prems show ?thesis by auto
  next
    case (Inr s1)
    obtain res1 t1 where rest: "parsePagesLoop env s1 dirs = (res1, t1)"
      by (cases "parsePagesLoop env s1 dirs")
    with Cons.prems Inr have "t = ParsePages s d (Inr s1) # t1" by simp
    with Cons.prems(2) Cons.IH [OF rest] show ?thesis by auto
  qed
qed

lemma parsePagesLoop_ok:
  "parsePagesLoop env s dirs = (Inr s', t) \<Longrightarrow>
     (\<forall>ev\<in>set t. faultOf ev = None) \<and> stages t = replicate (length dirs) Parsing"
proof (induction dirs arbitrary: s t)
  case Nil
  then show ?case by (simp add: stages_Nil)
next
  case (Cons d dirs)
  show ?case
  proof (cases "parsePages env s d")
    case (Inl e)
    with Cons.prems show ?thesis by simp
  next
    case (Inr s1)
    obtain res1 t1 where rest: "parsePagesLoop env s1 dirs = (res1, t1)"
      by (cases "parsePagesLoop env s1 dirs")
    with Cons.prems Inr have t: "t = ParsePages s d (Inr s1) # t1" and "res1 = Inr s'"
      by simp_all
    with rest Cons.IH [of s1 t1] show ?thesis by (simp add: stages_Cons)
  qed
qed

lemma parsePagesLoop_fails:
  "parsePagesLoop env s dirs = (Inl e, t) \<Longrightarrow>
     \<exists>pre a d. t = pre @ [ParsePages a d (Inl e)]
       \<and> (\<forall>ev\<in>set pre. faultOf ev = None)
       \<and> (\<exists>k. stages t = replicate k Parsing)"
proof (induction dirs arbitrary: s t)
  case Nil
  then show ?case by simp
next
  case (Cons d dirs)
  show ?case
  proof (cases "parsePages env s d")
    case (Inl e')
    with Cons.prems have "t = [] @ [ParsePages s d (Inl e)]" by auto
    moreover from this have "stages t = replicate 1 Parsing" by (simp add: stages_Cons stages_Nil)
    ultimately show ?thesis by (metis empty_iff empty_set)
  next
    case (Inr s1)
    obtain res1 t1 where rest: "parsePagesLoop env s1 dirs = (res1, t1)"
      by (cases "parsePagesLoop env s1 dirs")
    with Cons.prems Inr have t: "t = ParsePages s d (Inr s1) # t1" and "res1 = Inl e"
      by simp_all
    with rest Cons.IH [of s1 t1] obtain pre a d' k where
      "t1 = pre @ [ParsePages a d' (Inl e)]" "\<forall>ev\<in>set pre. faultOf ev = None"
      "stages t1 = replicate k Parsing" by blast
    with t have "t = (ParsePages s d (Inr s1) # pre) @ [ParsePages a d' (Inl e)]"
      "\<forall>ev\<in>set (ParsePages s d (Inr s1) # pre). faultOf ev = None"
      "stages t = replicate (Suc k) Parsing"
      by (simp_all add: stages_Cons)
    then show ?thesis by blast
  qed
qed

lemma parseComponentsLoop_not_late:
  "parseComponentsLoop env s dirs S = (res, t) \<Longrightarrow> ev \<in> set t \<Longrightarrow> \<not> isLate ev"
  by (drule (1) parseComponentsLoop_events) auto

lemma parsePagesLoop_not_late:
  "parsePagesLoop env s dirs = (res, t) \<Longrightarrow> ev \<in> set t \<Longrightarrow> \<not> isLate ev"
  by (drule (1) parsePagesLoop_events) auto





subsection \<open>The resolution of the components\<close>

lemma resolveComponents_Cons_cases:
  obtains (raised) e where
      "parseElements env s (childNodes (Component.node c)) g S = Inl e"
      "resolveComponents env s g S (c # cs) =
         (Inl e, [ParseElements s (childNodes (Component.node c)) (Inl e)])"
  | (empty)
      "parseElements env s (childNodes (Component.node c)) g S = Inr []"
      "resolveComponents env s g S (c # cs) =
         (Inl (TypeError ''Cannot read properties of undefined''),
          [ParseElements s (childNodes (Component.node c)) (Inr []), ReadOuterHTML None])"
  | (pushed) n ns res t where
      "parseElements env s (childNodes (Component.node c)) g S = Inr (n # ns)"
      "resolveComponents env s g S cs = (res, t)"
      "resolveComponents env s g S (c # cs) =
         (case res of Inl e \<Rightarrow> Inl e | Inr l \<Rightarrow> Inr (rebuiltFrom env c n # l),
          ParseElements s (childNodes (Component.node c)) (Inr (n # ns))
            # ReadOuterHTML (Some n) # t)"
proof (cases "parseElements env s (childNodes (Component.node c)) g S")
  case (Inl e)
  then show ?thesis using raised by (simp add: Let_def)
next
  case (Inr l)
  show ?thesis
  proof (cases l)
    case Nil
    with Inr show ?thesis using empty by (simp add: Let_def)
  next
    case (Cons n ns)
    obtain res t where rest: "resolveComponents env s g S cs = (res, t)"
      by (cases "resolveComponents env s g S cs")
    from Inr Cons have first: "parseElements env s (childNodes (Component.node c)) g S = Inr (n # ns)"
      by simp
    from first rest have
      "resolveComponents env s g S (c # cs) =
         (case res of Inl e \<Rightarrow> Inl e | Inr l \<Rightarrow> Inr (rebuiltFrom env c n # l),
          ParseElements s (childNodes (Component.node c)) (Inr (n # ns))
            # ReadOuterHTML (Some n) # t)"
      by (simp add: Let_def rebuiltFrom_def split: sum.splits)
    with first rest show ?thesis by (rule pushed)
  qed
qed

lemma resolveComponents_events:
  "resolveComponents env s g S cs = (res, t) \<Longrightarrow> ev \<in> set t \<Longrightarrow>
     (\<exists>ns r. ev = ParseElements s ns r) \<or> (\<exists>n. ev = ReadOuterHTML n)"
proof (induction cs arbitrary: res t)
  case Nil
  then show ?case by simp
next
  case (Cons c cs)
  show ?case
  proof (cases rule: resolveComponents_Cons_cases [of env s c g S cs])
    case (raised e)
    with Cons.prems show ?thesis by auto
  next
    case empty
    with Cons.prems show ?thesis by auto
  next
    case (pushed n ns res1 t1)
    with Cons.prems have
      "t = ParseElements s (childNodes (Component.node c)) (Inr (n # ns))
             # ReadOuterHTML (Some n) # t1" by simp
    with Cons.prems(2) Cons.IH [OF pushed(2)] show ?thesis by auto
  qed
qed

lemma resolveComponents_fails:
  "resolveComponents env s g S cs = (Inl e, t) \<Longrightarrow>
     (\<exists>ev\<in>set t. faultOf ev = Some (OtherFault e)) \<and> (\<exists>k. stages t = replicate k Resolving)"
proof (induction cs arbitrary: t)
  case Nil
  then show ?case by simp
next
  case (Cons c cs)
  show ?case
  proof (cases rule: resolveComponents_Cons_cases [of env s c g S cs])
    case (raised e')
    with Cons.prems have t: "t = [ParseElements s (childNodes (Component.node c)) (Inl e)]"
      by auto
    then have "stages t = replicate (Suc 0) Resolving"
      by (simp add: stages_Cons stages_Nil)
    then have "\<exists>k. stages t = replicate k Resolving" ..
    with t show ?thesis by simp
  next
    case empty
    with Cons.prems have t:
      "t = [ParseElements s (childNodes (Component.node c)) (Inr []), ReadOuterHTML None]"
      "e = TypeError ''Cannot read properties of undefined''" by auto
    then have "stages t = replicate (Suc 0) Resolving"
      by (simp add: stages_Cons stages_Nil)
    then have "\<exists>k. stages t = replicate k Resolving" ..
    with t show ?thesis by simp
  next
    case (pushed n ns res1 t1)
    with Cons.prems have t:
      "t = ParseElements s (childNodes (Component.node c)) (Inr (n # ns))
             # ReadOuterHTML (Some n) # t1" and "res1 = Inl e"
      by (simp_all split: sum.splits)
    with pushed(2) Cons.IH [of t1] obtain k where
      "\<exists>ev\<in>set t1. faultOf ev = Some (OtherFault e)" "stages t1 = replicate k Resolving"
      by blast
    with t have "\<exists>ev\<in>set t. faultOf ev = Some (OtherFault e)"
      "stages t = replicate (Suc k) Resolving"
      by (simp_all add: stages_Cons)
    then show ?thesis by blast
  qed
qed

lemma resolveComponents_fails_only:
  "resolveComponents env s g S cs = (Inl e, t) \<Longrightarrow> ev \<in> set t \<Longrightarrow>
     faultOf ev = None \<or> faultOf ev = Some (OtherFault e)"
proof (induction cs arbitrary: t)
  case Nil
  then show ?case by simp
next
  case (Cons c cs)
  show ?case
  proof (cases rule: resolveComponents_Cons_cases [of env s c g S cs])
    case (raised e')
    with Cons.prems show ?thesis by auto
  next
    case empty
    with Cons.prems show ?thesis by auto
  next
    case (pushed n ns res1 t1)
    with Cons.prems have t:
      "t = ParseElements s (childNodes (Component.node c)) (Inr (n # ns))
             # ReadOuterHTML (Some n) # t1" and "res1 = Inl e"
      by (simp_all split: sum.splits)
    with Cons.prems(2) Cons.IH [of t1] pushed(2) show ?thesis by auto
  qed
qed

lemma resolveComponents_ok:
  "resolveComponents env s g S cs = (Inr cs', t) \<Longrightarrow>
     stages t = replicate (length cs) Resolving
     \<and> filter isResolverCall t =
         map (\<lambda>c. ParseElements s (childNodes (Component.node c))
                    (parseElements env s (childNodes (Component.node c)) g S)) cs
     \<and> list_all2 (\<lambda>c c'. \<exists>n ns.
           parseElements env s (childNodes (Component.node c)) g S = Inr (n # ns)
           \<and> c' = rebuiltFrom env c n) cs cs'"
proof (induction cs arbitrary: cs' t)
  case Nil
  then show ?case by (simp add: stages_Nil)
next
  case (Cons c cs)
  show ?case
  proof (cases rule: resolveComponents_Cons_cases [of env s c g S cs])
    case (raised e)
    with Cons.prems show ?thesis by simp
  next
    case empty
    with Cons.prems show ?thesis by simp
  next
    case (pushed n ns res1 t1)
    with Cons.prems obtain l where l: "res1 = Inr l" "cs' = rebuiltFrom env c n # l"
      and t: "t = ParseElements s (childNodes (Component.node c)) (Inr (n # ns))
                   # ReadOuterHTML (Some n) # t1"
      by (cases res1) auto
    from Cons.IH [of l t1] pushed(2) l(1) have
      "stages t1 = replicate (length cs) Resolving"
      "filter isResolverCall t1 =
         map (\<lambda>c. ParseElements s (childNodes (Component.node c))
                    (parseElements env s (childNodes (Component.node c)) g S)) cs"
      "list_all2 (\<lambda>c c'. \<exists>n ns.
           parseElements env s (childNodes (Component.node c)) g S = Inr (n # ns)
           \<and> c' = rebuiltFrom env c n) cs l"
      by simp_all
    with t l pushed(1) show ?thesis by (simp add: stages_Cons)
  qed
qed

lemma resolveComponents_ok_faults:
  "resolveComponents env s g S cs = (Inr cs', t) \<Longrightarrow> ev \<in> set t \<Longrightarrow> faultOf ev = None"
proof (induction cs arbitrary: cs' t)
  case Nil
  then show ?case by simp
next
  case (Cons c cs)
  show ?case
  proof (cases rule: resolveComponents_Cons_cases [of env s c g S cs])
    case (raised e)
    with Cons.prems show ?thesis by simp
  next
    case empty
    with Cons.prems show ?thesis by simp
  next
    case (pushed n ns res1 t1)
    with Cons.prems obtain l where l: "res1 = Inr l"
      and t: "t = ParseElements s (childNodes (Component.node c)) (Inr (n # ns))
                   # ReadOuterHTML (Some n) # t1"
      by (cases res1) auto
    with Cons.prems(2) Cons.IH [OF pushed(2) [unfolded l]] show ?thesis by auto
  qed
qed

lemma resolveComponents_total:
  assumes "\<forall>c\<in>set cs. \<exists>n ns.
             parseElements env s (childNodes (Component.node c)) g S = Inr (n # ns)"
  shows "\<exists>cs' t. resolveComponents env s g S cs = (Inr cs', t)"
  using assms
proof (induction cs)
  case Nil
  then show ?case by simp
next
  case (Cons c cs)
  from Cons.prems obtain n ns where
    first: "parseElements env s (childNodes (Component.node c)) g S = Inr (n # ns)" by auto
  from Cons obtain cs' t where "resolveComponents env s g S cs = (Inr cs', t)" by auto
  with first show ?case by (simp add: Let_def)
qed


lemma no_parse_fault_components:
  "resolveComponents env s g S cs = (res, t) \<Longrightarrow> ev \<in> set t \<Longrightarrow>
     faultOf ev \<noteq> Some (ParseFault e)"
  by (drule (1) resolveComponents_events) (auto split: sum.splits option.splits elim: faultOf.elims)

subsection \<open>The resolution of the pages\<close>

lemma withChildNodes_twice [simp]:
  "withChildNodes (withChildNodes page a) b = withChildNodes page b"
  by (simp add: withChildNodes_def setChildNodes_def)

lemma resolvePages_Cons_cases:
  obtains (first) e where
      "parseElements env s (childNodes (Page.node page)) g S = Inl e"
      "resolvePages env s g S seen (page # rest) =
         (Inl e, [ParseElements s (childNodes (Page.node page)) (Inl e)])"
  | (second) nodes1 e where
      "parseElements env s (childNodes (Page.node page)) g S = Inr nodes1"
      "parseElements env (s\<lparr>pagesList := seen @ withChildNodes page nodes1 # rest\<rparr>)
         nodes1 g S = Inl e"
      "resolvePages env s g S seen (page # rest) =
         (Inl e, [ParseElements s (childNodes (Page.node page)) (Inr nodes1),
                  ParseElements (s\<lparr>pagesList := seen @ withChildNodes page nodes1 # rest\<rparr>)
                    nodes1 (Inl e)])"
  | (both) nodes1 nodes2 res t where
      "parseElements env s (childNodes (Page.node page)) g S = Inr nodes1"
      "parseElements env (s\<lparr>pagesList := seen @ withChildNodes page nodes1 # rest\<rparr>)
         nodes1 g S = Inr nodes2"
      "resolvePages env (s\<lparr>pagesList := seen @ withChildNodes page nodes2 # rest\<rparr>) g S
         (seen @ [withChildNodes page nodes2]) rest = (res, t)"
      "resolvePages env s g S seen (page # rest) =
         (res, passes (page, s, nodes1,
                       s\<lparr>pagesList := seen @ withChildNodes page nodes1 # rest\<rparr>, nodes2) @ t)"
proof (cases "parseElements env s (childNodes (Page.node page)) g S")
  case (Inl e)
  then show ?thesis using first by (simp add: Let_def)
next
  case (Inr nodes1)
  show ?thesis
  proof (cases "parseElements env (s\<lparr>pagesList := seen @ withChildNodes page nodes1 # rest\<rparr>)
         nodes1 g S")
    case (Inl e)
    from Inr Inl have
      "resolvePages env s g S seen (page # rest) =
         (Inl e, [ParseElements s (childNodes (Page.node page)) (Inr nodes1),
                  ParseElements (s\<lparr>pagesList := seen @ withChildNodes page nodes1 # rest\<rparr>)
                    nodes1 (Inl e)])"
      by (simp add: Let_def withChildNodes_def)
    with Inr Inl show ?thesis by (rule second)
  next
    case nodes2: (Inr nodes2)
    obtain res t where rest:
      "resolvePages env (s\<lparr>pagesList := seen @ withChildNodes page nodes2 # rest\<rparr>) g S
         (seen @ [withChildNodes page nodes2]) rest = (res, t)"
      by (cases "resolvePages env (s\<lparr>pagesList := seen @ withChildNodes page nodes2 # rest\<rparr>)
         g S (seen @ [withChildNodes page nodes2]) rest")
    from Inr nodes2 rest have
      "resolvePages env s g S seen (page # rest) =
         (res, passes (page, s, nodes1,
                       s\<lparr>pagesList := seen @ withChildNodes page nodes1 # rest\<rparr>, nodes2) @ t)"
      by (simp add: Let_def withChildNodes_def setChildNodes_def)
    with Inr nodes2 rest show ?thesis by (rule both)
  qed
qed


lemma resolvePages_fails:
  "resolvePages env s g S seen todo = (Inl e, t) \<Longrightarrow>
     (\<exists>ev\<in>set t. faultOf ev = Some (OtherFault e)) \<and> (\<exists>k. stages t = replicate k Resolving)"
proof (induction todo arbitrary: s seen t)
  case Nil
  then show ?case by simp
next
  case (Cons page rest)
  show ?case
  proof (cases rule: resolvePages_Cons_cases [of env s page g S seen rest])
    case (first e')
    with Cons.prems have t: "t = [ParseElements s (childNodes (Page.node page)) (Inl e)]"
      by auto
    then have "stages t = replicate (Suc 0) Resolving"
      by (simp add: stages_Cons stages_Nil)
    then have "\<exists>k. stages t = replicate k Resolving" ..
    with t show ?thesis by simp
  next
    case (second nodes1 e')
    with Cons.prems have t:
      "t = [ParseElements s (childNodes (Page.node page)) (Inr nodes1),
            ParseElements (s\<lparr>pagesList := seen @ withChildNodes page nodes1 # rest\<rparr>)
              nodes1 (Inl e)]"
      by auto
    then have "stages t = replicate (Suc (Suc 0)) Resolving"
      by (simp add: stages_Cons stages_Nil)
    then have "\<exists>k. stages t = replicate k Resolving" ..
    with t show ?thesis by simp
  next
    case (both nodes1 nodes2 res1 t1)
    with Cons.prems have t:
      "t = passes (page, s, nodes1,
                   s\<lparr>pagesList := seen @ withChildNodes page nodes1 # rest\<rparr>, nodes2) @ t1"
      and "res1 = Inl e" by simp_all
    with both(3) Cons.IH [of _ _ t1] obtain k where
      "\<exists>ev\<in>set t1. faultOf ev = Some (OtherFault e)" "stages t1 = replicate k Resolving"
      by blast
    with t have "\<exists>ev\<in>set t. faultOf ev = Some (OtherFault e)"
      "stages t = replicate (Suc (Suc k)) Resolving"
      by (auto simp: stages_Cons)
    then show ?thesis by blast
  qed
qed

lemma resolvePages_fails_only:
  "resolvePages env s g S seen todo = (Inl e, t) \<Longrightarrow> ev \<in> set t \<Longrightarrow>
     faultOf ev = None \<or> faultOf ev = Some (OtherFault e)"
proof (induction todo arbitrary: s seen t)
  case Nil
  then show ?case by simp
next
  case (Cons page rest)
  show ?case
  proof (cases rule: resolvePages_Cons_cases [of env s page g S seen rest])
    case (first e')
    with Cons.prems show ?thesis by auto
  next
    case (second nodes1 e')
    with Cons.prems show ?thesis by auto
  next
    case (both nodes1 nodes2 res1 t1)
    with Cons.prems have t:
      "t = passes (page, s, nodes1,
                   s\<lparr>pagesList := seen @ withChildNodes page nodes1 # rest\<rparr>, nodes2) @ t1"
      and "res1 = Inl e" by simp_all
    with Cons.prems(2) Cons.IH [of _ _ t1] both(3) show ?thesis by auto
  qed
qed

lemma resolvePages_ok:
  "resolvePages env s g S seen todo = (Inr s', t) \<Longrightarrow> pagesList s = seen @ todo \<Longrightarrow>
     \<exists>rs. map fst rs = todo \<and> t = concat (map passes rs)
       \<and> pagesList s' = seen @ map resolvedPage rs"
proof (induction todo arbitrary: s seen t)
  case Nil
  then have "map fst [] = ([] :: Page list) \<and> t = concat (map passes [])
       \<and> pagesList s' = seen @ map resolvedPage []" by simp
  then show ?case by (rule exI)
next
  case (Cons page rest)
  show ?case
  proof (cases rule: resolvePages_Cons_cases [of env s page g S seen rest])
    case (first e)
    with Cons.prems show ?thesis by simp
  next
    case (second nodes1 e)
    with Cons.prems show ?thesis by simp
  next
    case (both nodes1 nodes2 res1 t1)
    let ?r = "(page, s, nodes1, s\<lparr>pagesList := seen @ withChildNodes page nodes1 # rest\<rparr>, nodes2)"
    from both Cons.prems have t: "t = passes ?r @ t1" and res1: "res1 = Inr s'" by simp_all
    have "pagesList (s\<lparr>pagesList := seen @ withChildNodes page nodes2 # rest\<rparr>)
            = (seen @ [withChildNodes page nodes2]) @ rest" by simp
    from Cons.IH [OF both(3) [unfolded res1] this] obtain rs where rs:
      "map fst rs = rest" "t1 = concat (map passes rs)"
      "pagesList s' = (seen @ [withChildNodes page nodes2]) @ map resolvedPage rs" by blast
    with t have "map fst (?r # rs) = page # rest \<and> t = concat (map passes (?r # rs))
      \<and> pagesList s' = seen @ map resolvedPage (?r # rs)" by simp
    then show ?thesis by (rule exI)
  qed
qed



lemma passes_faults: "ev \<in> set (concat (map passes rs)) \<Longrightarrow> faultOf ev = None"
  by (induction rs) auto

lemma resolvePages_ok_faults:
  assumes "resolvePages env s g S [] todo = (Inr s', t)" and "pagesList s = todo"
    and "ev \<in> set t"
  shows "faultOf ev = None"
proof -
  from resolvePages_ok [OF assms(1)] assms(2) obtain rs where "t = concat (map passes rs)"
    by auto
  with assms(3) show ?thesis by (simp only: passes_faults)
qed


subsection \<open>The first state of a trace\<close>

lemma firstState_append:
  "firstState (a @ b) = (case firstState a of None \<Rightarrow> firstState b | Some s \<Rightarrow> Some s)"
  by (induction a) (auto split: option.splits)

lemma firstState_None: "(\<forall>ev\<in>set t. stateIn ev = None) \<Longrightarrow> firstState t = None"
  by (induction t) auto

lemma hookStep_first:
  "hookStep env cp r s = (s', t) \<Longrightarrow>
     firstState t = Some s \<or> (firstState t = None \<and> s' = s)"
  by (cases rule: hookStep_cases [of cp env r s]) auto

lemma runHooks_first:
  "runHooks env cp rs s = (s', t) \<Longrightarrow>
     firstState t = Some s \<or> (firstState t = None \<and> s' = s)"
proof (induction rs arbitrary: s s' t)
  case Nil
  then show ?case by simp
next
  case (Cons r rs)
  obtain s1 t1 where step: "hookStep env cp r s = (s1, t1)" by (cases "hookStep env cp r s")
  obtain s2 t2 where rest: "runHooks env cp rs s1 = (s2, t2)" by (cases "runHooks env cp rs s1")
  from Cons.prems step rest have "t = t1 @ t2" "s' = s2" by simp_all
  with hookStep_first [OF step] Cons.IH [OF rest] show ?case
    by (auto simp: firstState_append)
qed

lemma parseComponentsLoop_first:
  "parseComponentsLoop env s dirs S = (res, t) \<Longrightarrow>
     firstState t = Some s \<or> (firstState t = None \<and> res = Inr s)"
  by (cases dirs) (auto split: sum.splits prod.splits)

lemma parsePagesLoop_first:
  "parsePagesLoop env s dirs = (res, t) \<Longrightarrow>
     firstState t = Some s \<or> (firstState t = None \<and> res = Inr s)"
  by (cases dirs) (auto split: sum.splits prod.splits)

lemma resolveComponents_first:
  "resolveComponents env s g S cs = (res, t) \<Longrightarrow>
     firstState t = Some s \<or> (firstState t = None \<and> res = Inr [] \<and> cs = [])"
proof (cases cs)
  case Nil
  then show "resolveComponents env s g S cs = (res, t) \<Longrightarrow> ?thesis" by simp
next
  case (Cons c cs')
  assume "resolveComponents env s g S cs = (res, t)"
  with Cons show ?thesis
    by (cases rule: resolveComponents_Cons_cases [of env s c g S cs']) auto
qed

lemma resolvePages_first:
  "resolvePages env s g S seen todo = (res, t) \<Longrightarrow>
     firstState t = Some s \<or> (firstState t = None \<and> res = Inr s)"
proof (cases todo)
  case Nil
  then show "resolvePages env s g S seen todo = (res, t) \<Longrightarrow> ?thesis" by simp
next
  case (Cons page rest)
  assume "resolvePages env s g S seen todo = (res, t)"
  with Cons show ?thesis
    by (cases rule: resolvePages_Cons_cases [of env s page g S seen rest]) auto
qed

subsection \<open>The ways through \<^verbatim>\<open>bundle\<close>\<close>

text \<open>
  A pass ends in one of eight ways: at the creation of the output directory, in one of the
  two parse loops, in one of the two resolution loops, at the alias pages, at the dump, or
  at its last line. Each case gives the results of the stages passed and the trace.
\<close>

lemma bundle_cases:
  obtains
    (createDir) s0 t0 e where
      "runHooks env BeforeBuild (plugins S) initialState = (s0, t0)"
      "createDir env S = Some e"
      "bundle' env S = (Raised e, t0 @ [CreateDir S (Some e)])"
  | (parseComponents) s0 t0 e t1 where
      "runHooks env BeforeBuild (plugins S) initialState = (s0, t0)"
      "parseComponentsLoop env s0 (componentsFolder S) S = (Inl e, t1)"
      "bundle' env S = (Returned False, t0 @ [CreateDir S None] @ t1 @ [LoggerError e])"
  | (parsePages) s0 t0 s1 t1 e t2 where
      "runHooks env BeforeBuild (plugins S) initialState = (s0, t0)"
      "parseComponentsLoop env s0 (componentsFolder S) S = (Inr s1, t1)"
      "parsePagesLoop env s1 (srcDir S) = (Inl e, t2)"
      "bundle' env S = (Returned False, t0 @ [CreateDir S None] @ t1 @ t2 @ [LoggerError e])"
  | (resolveComponents) s0 t0 s1 t1 s2 t2 e t3 where
      "runHooks env BeforeBuild (plugins S) initialState = (s0, t0)"
      "parseComponentsLoop env s0 (componentsFolder S) S = (Inr s1, t1)"
      "parsePagesLoop env s1 (srcDir S) = (Inr s2, t2)"
      "resolveComponents env s2 (jsGeneratorOf S) S (componentsList s2) = (Inl e, t3)"
      "bundle' env S = (Raised e, t0 @ [CreateDir S None] @ t1 @ t2 @ t3)"
  | (resolvePages) s0 t0 s1 t1 s2 t2 cs t3 e t4 where
      "runHooks env BeforeBuild (plugins S) initialState = (s0, t0)"
      "parseComponentsLoop env s0 (componentsFolder S) S = (Inr s1, t1)"
      "parsePagesLoop env s1 (srcDir S) = (Inr s2, t2)"
      "resolveComponents env s2 (jsGeneratorOf S) S (componentsList s2) = (Inr cs, t3)"
      "resolvePages env (s2\<lparr>componentsList := cs\<rparr>) (jsGeneratorOf S) S [] (pagesList s2)
         = (Inl e, t4)"
      "bundle' env S = (Raised e, t0 @ [CreateDir S None] @ t1 @ t2 @ t3 @ t4)"
  | (aliasPages) s0 t0 s1 t1 s2 t2 cs t3 s4 t4 e where
      "runHooks env BeforeBuild (plugins S) initialState = (s0, t0)"
      "parseComponentsLoop env s0 (componentsFolder S) S = (Inr s1, t1)"
      "parsePagesLoop env s1 (srcDir S) = (Inr s2, t2)"
      "resolveComponents env s2 (jsGeneratorOf S) S (componentsList s2) = (Inr cs, t3)"
      "resolvePages env (s2\<lparr>componentsList := cs\<rparr>) (jsGeneratorOf S) S [] (pagesList s2)
         = (Inr s4, t4)"
      "bundle' env S =
         (Raised e, t0 @ [CreateDir S None] @ t1 @ t2 @ t3 @ t4
                      @ [GenerateAliasPages s4 (Inl e)])"
  | (dumpPages) s0 t0 s1 t1 s2 t2 cs t3 s4 t4 pages s5 t5 e where
      "runHooks env BeforeBuild (plugins S) initialState = (s0, t0)"
      "parseComponentsLoop env s0 (componentsFolder S) S = (Inr s1, t1)"
      "parsePagesLoop env s1 (srcDir S) = (Inr s2, t2)"
      "resolveComponents env s2 (jsGeneratorOf S) S (componentsList s2) = (Inr cs, t3)"
      "resolvePages env (s2\<lparr>componentsList := cs\<rparr>) (jsGeneratorOf S) S [] (pagesList s2)
         = (Inr s4, t4)"
      "runHooks env AfterBuild (plugins S) (s4\<lparr>pagesList := pages\<rparr>) = (s5, t5)"
      "bundle' env S =
         (Raised e, t0 @ [CreateDir S None] @ t1 @ t2 @ t3 @ t4
                      @ [GenerateAliasPages s4 (Inr pages)] @ t5 @ [DumpPages s5 (Some e)])"
  | (completed) s0 t0 s1 t1 s2 t2 cs t3 s4 t4 pages s5 t5 s6 t6 where
      "runHooks env BeforeBuild (plugins S) initialState = (s0, t0)"
      "parseComponentsLoop env s0 (componentsFolder S) S = (Inr s1, t1)"
      "parsePagesLoop env s1 (srcDir S) = (Inr s2, t2)"
      "resolveComponents env s2 (jsGeneratorOf S) S (componentsList s2) = (Inr cs, t3)"
      "resolvePages env (s2\<lparr>componentsList := cs\<rparr>) (jsGeneratorOf S) S [] (pagesList s2)
         = (Inr s4, t4)"
      "runHooks env AfterBuild (plugins S) (s4\<lparr>pagesList := pages\<rparr>) = (s5, t5)"
      "runHooks env Bundle (plugins S) s5 = (s6, t6)"
      "bundle' env S =
         (Returned True, t0 @ [CreateDir S None] @ t1 @ t2 @ t3 @ t4
                      @ [GenerateAliasPages s4 (Inr pages)] @ t5 @ [DumpPages s5 None] @ t6)"
proof -
  obtain s0 t0 where h0: "runHooks env BeforeBuild (plugins S) initialState = (s0, t0)"
    by (cases "runHooks env BeforeBuild (plugins S) initialState")
  show ?thesis
  proof (cases "createDir env S")
    case (Some e)
    with h0 have "bundle' env S = (Raised e, t0 @ [CreateDir S (Some e)])"
      by (simp add: bundle'_def)
    with h0 Some show ?thesis by (rule createDir)
  next
    case None
    obtain r1 t1 where h1: "parseComponentsLoop env s0 (componentsFolder S) S = (r1, t1)"
      by (cases "parseComponentsLoop env s0 (componentsFolder S) S")
    show ?thesis
    proof (cases r1)
      case (Inl e)
      with h0 None h1 have
        "bundle' env S = (Returned False, t0 @ [CreateDir S None] @ t1 @ [LoggerError e])"
        by (simp add: bundle'_def)
      with h0 h1 [unfolded Inl] show ?thesis by (rule parseComponents)
    next
      case s1: (Inr s1)
      note h1 = h1 [unfolded s1]
      obtain r2 t2 where h2: "parsePagesLoop env s1 (srcDir S) = (r2, t2)"
        by (cases "parsePagesLoop env s1 (srcDir S)")
      show ?thesis
      proof (cases r2)
        case (Inl e)
        with h0 None h1 h2 have
          "bundle' env S =
             (Returned False, t0 @ [CreateDir S None] @ t1 @ t2 @ [LoggerError e])"
          by (simp add: bundle'_def)
        with h0 h1 h2 [unfolded Inl] show ?thesis by (rule parsePages)
      next
        case s2: (Inr s2)
        note h2 = h2 [unfolded s2]
        obtain r3 t3 where h3:
          "resolveComponents env s2 (jsGeneratorOf S) S (componentsList s2) = (r3, t3)"
          by (cases "resolveComponents env s2 (jsGeneratorOf S) S (componentsList s2)")
        show ?thesis
        proof (cases r3)
          case (Inl e)
          with h0 None h1 h2 h3 have
            "bundle' env S = (Raised e, t0 @ [CreateDir S None] @ t1 @ t2 @ t3)"
            by (simp add: bundle'_def jsGeneratorOf_def)
          with h0 h1 h2 h3 [unfolded Inl] show ?thesis by (rule resolveComponents)
        next
          case cs: (Inr cs)
          note h3 = h3 [unfolded cs]
          obtain r4 t4 where h4:
            "resolvePages env (s2\<lparr>componentsList := cs\<rparr>) (jsGeneratorOf S) S []
               (pagesList s2) = (r4, t4)"
            by (cases "resolvePages env (s2\<lparr>componentsList := cs\<rparr>) (jsGeneratorOf S) S []
               (pagesList s2)")
          show ?thesis
          proof (cases r4)
            case (Inl e)
            with h0 None h1 h2 h3 h4 have
              "bundle' env S = (Raised e, t0 @ [CreateDir S None] @ t1 @ t2 @ t3 @ t4)"
              by (simp add: bundle'_def jsGeneratorOf_def)
            with h0 h1 h2 h3 h4 [unfolded Inl] show ?thesis by (rule resolvePages)
          next
            case s4: (Inr s4)
            note h4 = h4 [unfolded s4]
            show ?thesis
            proof (cases "generateAliasPagesFromPagesList env s4 (jsGeneratorOf S) S")
              case (Inl e)
              with h0 None h1 h2 h3 h4 have
                "bundle' env S =
                   (Raised e, t0 @ [CreateDir S None] @ t1 @ t2 @ t3 @ t4
                      @ [GenerateAliasPages s4 (Inl e)])"
                by (simp add: bundle'_def jsGeneratorOf_def)
              with h0 h1 h2 h3 h4 show ?thesis by (rule aliasPages)
            next
              case pages: (Inr pages)
              obtain s5 t5 where h5:
                "runHooks env AfterBuild (plugins S) (s4\<lparr>pagesList := pages\<rparr>) = (s5, t5)"
                by (cases "runHooks env AfterBuild (plugins S) (s4\<lparr>pagesList := pages\<rparr>)")
              show ?thesis
              proof (cases "dumpPages env s5 (libDirname env) S")
                case (Some e)
                with h0 None h1 h2 h3 h4 pages h5 have
                  "bundle' env S =
                     (Raised e, t0 @ [CreateDir S None] @ t1 @ t2 @ t3 @ t4
                        @ [GenerateAliasPages s4 (Inr pages)] @ t5 @ [DumpPages s5 (Some e)])"
                  by (simp add: bundle'_def jsGeneratorOf_def)
                with h0 h1 h2 h3 h4 h5 show ?thesis by (rule dumpPages)
              next
                case dumped: None
                obtain s6 t6 where h6: "runHooks env Bundle (plugins S) s5 = (s6, t6)"
                  by (cases "runHooks env Bundle (plugins S) s5")
                with h0 None h1 h2 h3 h4 pages h5 dumped have
                  "bundle' env S =
                     (Returned True, t0 @ [CreateDir S None] @ t1 @ t2 @ t3 @ t4
                        @ [GenerateAliasPages s4 (Inr pages)] @ t5 @ [DumpPages s5 None] @ t6)"
                  by (simp add: bundle'_def jsGeneratorOf_def)
                with h0 h1 h2 h3 h4 h5 h6 show ?thesis by (rule completed)
              qed
            qed
          qed
        qed
      qed
    qed
  qed
qed

lemma bundle_outcome:
  assumes "bundle' env S = (res, tr)"
  shows "(res = Returned True \<longleftrightarrow> (\<forall>ev\<in>set tr. faultOf ev = None))
       \<and> (res = Returned False \<longleftrightarrow> (\<exists>ev\<in>set tr. \<exists>e. faultOf ev = Some (ParseFault e)))
       \<and> (res = Raised e \<longleftrightarrow> (\<exists>ev\<in>set tr. faultOf ev = Some (OtherFault e)))"
proof (cases rule: bundle_cases [of env S])
  case (createDir s0 t0 e')
  note f0 = runHooks_no_fault [OF createDir(1)]
  from createDir(3) assms have "res = Raised e'" "tr = t0 @ [CreateDir S (Some e')]" by simp_all
  with f0 show ?thesis by auto
next
  case (parseComponents s0 t0 e' t1)
  note f0 = runHooks_no_fault [OF parseComponents(1)]
  from parseComponentsLoop_fails [OF parseComponents(2)] obtain pre a d where
    t1: "t1 = pre @ [ParseComponents a d S (Inl e')]" and f1: "\<forall>ev\<in>set pre. faultOf ev = None"
    by blast
  from parseComponents(3) assms have "res = Returned False"
    "tr = t0 @ [CreateDir S None] @ t1 @ [LoggerError e']" by simp_all
  with f0 t1 f1 show ?thesis by auto
next
  case (parsePages s0 t0 s1 t1 e' t2)
  note f0 = runHooks_no_fault [OF parsePages(1)]
  from parseComponentsLoop_ok [OF parsePages(2)] have f1: "\<forall>ev\<in>set t1. faultOf ev = None" ..
  from parsePagesLoop_fails [OF parsePages(3)] obtain pre a d where
    t2: "t2 = pre @ [ParsePages a d (Inl e')]" and f2: "\<forall>ev\<in>set pre. faultOf ev = None"
    by blast
  from parsePages(4) assms have "res = Returned False"
    "tr = t0 @ [CreateDir S None] @ t1 @ t2 @ [LoggerError e']" by simp_all
  with f0 f1 t2 f2 show ?thesis by auto
next
  case (resolveComponents s0 t0 s1 t1 s2 t2 e' t3)
  note f0 = runHooks_no_fault [OF resolveComponents(1)]
  from parseComponentsLoop_ok [OF resolveComponents(2)]
  have f1: "\<forall>ev\<in>set t1. faultOf ev = None" ..
  from parsePagesLoop_ok [OF resolveComponents(3)]
  have f2: "\<forall>ev\<in>set t2. faultOf ev = None" ..
  from resolveComponents_fails [OF resolveComponents(4)]
  have f3: "\<exists>ev\<in>set t3. faultOf ev = Some (OtherFault e')" ..
  note o3 = resolveComponents_fails_only [OF resolveComponents(4)]
  from resolveComponents(5) assms have "res = Raised e'"
    "tr = t0 @ [CreateDir S None] @ t1 @ t2 @ t3" by simp_all
  with f0 f1 f2 f3 o3 show ?thesis by fastforce
next
  case (resolvePages s0 t0 s1 t1 s2 t2 cs t3 e' t4)
  note f0 = runHooks_no_fault [OF resolvePages(1)]
  from parseComponentsLoop_ok [OF resolvePages(2)]
  have f1: "\<forall>ev\<in>set t1. faultOf ev = None" ..
  from parsePagesLoop_ok [OF resolvePages(3)]
  have f2: "\<forall>ev\<in>set t2. faultOf ev = None" ..
  note f3 = resolveComponents_ok_faults [OF resolvePages(4)]
  from resolvePages_fails [OF resolvePages(5)]
  have f4: "\<exists>ev\<in>set t4. faultOf ev = Some (OtherFault e')" ..
  note o4 = resolvePages_fails_only [OF resolvePages(5)]
  from resolvePages(6) assms have "res = Raised e'"
    "tr = t0 @ [CreateDir S None] @ t1 @ t2 @ t3 @ t4" by simp_all
  with f0 f1 f2 f3 f4 o4 show ?thesis by fastforce
next
  case (aliasPages s0 t0 s1 t1 s2 t2 cs t3 s4 t4 e')
  note f0 = runHooks_no_fault [OF aliasPages(1)]
  from parseComponentsLoop_ok [OF aliasPages(2)]
  have f1: "\<forall>ev\<in>set t1. faultOf ev = None" ..
  from parsePagesLoop_ok [OF aliasPages(3)]
  have f2: "\<forall>ev\<in>set t2. faultOf ev = None" ..
  note f3 = resolveComponents_ok_faults [OF aliasPages(4)]
  have f4: "\<forall>ev\<in>set t4. faultOf ev = None"
    using resolvePages_ok_faults [OF aliasPages(5)] by simp
  from aliasPages(6) assms have "res = Raised e'"
    "tr = t0 @ [CreateDir S None] @ t1 @ t2 @ t3 @ t4 @ [GenerateAliasPages s4 (Inl e')]"
    by simp_all
  with f0 f1 f2 f3 f4 show ?thesis by auto
next
  case (dumpPages s0 t0 s1 t1 s2 t2 cs t3 s4 t4 pages s5 t5 e')
  note f0 = runHooks_no_fault [OF dumpPages(1)]
  from parseComponentsLoop_ok [OF dumpPages(2)]
  have f1: "\<forall>ev\<in>set t1. faultOf ev = None" ..
  from parsePagesLoop_ok [OF dumpPages(3)]
  have f2: "\<forall>ev\<in>set t2. faultOf ev = None" ..
  note f3 = resolveComponents_ok_faults [OF dumpPages(4)]
  have f4: "\<forall>ev\<in>set t4. faultOf ev = None"
    using resolvePages_ok_faults [OF dumpPages(5)] by simp
  note f5 = runHooks_no_fault [OF dumpPages(6)]
  from dumpPages(7) assms have "res = Raised e'"
    "tr = t0 @ [CreateDir S None] @ t1 @ t2 @ t3 @ t4 @ [GenerateAliasPages s4 (Inr pages)]
            @ t5 @ [DumpPages s5 (Some e')]"
    by simp_all
  with f0 f1 f2 f3 f4 f5 show ?thesis by auto
next
  case (completed s0 t0 s1 t1 s2 t2 cs t3 s4 t4 pages s5 t5 s6 t6)
  note f0 = runHooks_no_fault [OF completed(1)]
  from parseComponentsLoop_ok [OF completed(2)]
  have f1: "\<forall>ev\<in>set t1. faultOf ev = None" ..
  from parsePagesLoop_ok [OF completed(3)]
  have f2: "\<forall>ev\<in>set t2. faultOf ev = None" ..
  note f3 = resolveComponents_ok_faults [OF completed(4)]
  have f4: "\<forall>ev\<in>set t4. faultOf ev = None"
    using resolvePages_ok_faults [OF completed(5)] by simp
  note f5 = runHooks_no_fault [OF completed(6)]
  note f6 = runHooks_no_fault [OF completed(7)]
  from completed(8) assms have "res = Returned True"
    "tr = t0 @ [CreateDir S None] @ t1 @ t2 @ t3 @ t4 @ [GenerateAliasPages s4 (Inr pages)]
            @ t5 @ [DumpPages s5 None] @ t6"
    by simp_all
  with f0 f1 f2 f3 f4 f5 f6 show ?thesis by auto
qed


lemma bundle_first:
  "firstState (snd (bundle' env S)) = None \<or> firstState (snd (bundle' env S)) = Some initialState"
proof (cases rule: bundle_cases [of env S])
  case (createDir s0 t0 e')
  from runHooks_first [OF createDir(1)] createDir(3) show ?thesis
    by (auto simp: firstState_append)
next
  case (parseComponents s0 t0 e' t1)
  from runHooks_first [OF parseComponents(1)] parseComponentsLoop_first [OF parseComponents(2)]
    parseComponents(3)
  show ?thesis by (auto simp: firstState_append)
next
  case (parsePages s0 t0 s1 t1 e' t2)
  from runHooks_first [OF parsePages(1)] parseComponentsLoop_first [OF parsePages(2)]
    parsePagesLoop_first [OF parsePages(3)] parsePages(4)
  show ?thesis by (auto simp: firstState_append)
next
  case (resolveComponents s0 t0 s1 t1 s2 t2 e' t3)
  from runHooks_first [OF resolveComponents(1)]
    parseComponentsLoop_first [OF resolveComponents(2)]
    parsePagesLoop_first [OF resolveComponents(3)]
    resolveComponents_first [OF resolveComponents(4)] resolveComponents(5)
  show ?thesis by (auto simp: firstState_append)
next
  case (resolvePages s0 t0 s1 t1 s2 t2 cs t3 e' t4)
  from runHooks_first [OF resolvePages(1)]
    parseComponentsLoop_first [OF resolvePages(2)]
    parsePagesLoop_first [OF resolvePages(3)]
    resolveComponents_first [OF resolvePages(4)]
    resolvePages_first [OF resolvePages(5)] resolvePages(6)
  show ?thesis by (auto simp: firstState_append)
next
  case (aliasPages s0 t0 s1 t1 s2 t2 cs t3 s4 t4 e')
  from runHooks_first [OF aliasPages(1)]
    parseComponentsLoop_first [OF aliasPages(2)]
    parsePagesLoop_first [OF aliasPages(3)]
    resolveComponents_first [OF aliasPages(4)]
    resolvePages_first [OF aliasPages(5)] aliasPages(6)
  show ?thesis by (auto simp: firstState_append)
next
  case (dumpPages s0 t0 s1 t1 s2 t2 cs t3 s4 t4 pages s5 t5 e')
  from runHooks_first [OF dumpPages(1)]
    parseComponentsLoop_first [OF dumpPages(2)]
    parsePagesLoop_first [OF dumpPages(3)]
    resolveComponents_first [OF dumpPages(4)]
    resolvePages_first [OF dumpPages(5)] dumpPages(7)
  show ?thesis by (auto simp: firstState_append)
next
  case (completed s0 t0 s1 t1 s2 t2 cs t3 s4 t4 pages s5 t5 s6 t6)
  from runHooks_first [OF completed(1)]
    parseComponentsLoop_first [OF completed(2)]
    parsePagesLoop_first [OF completed(3)]
    resolveComponents_first [OF completed(4)]
    resolvePages_first [OF completed(5)] completed(8)
  show ?thesis by (auto simp: firstState_append)
qed

subsection \<open>\<^verbatim>\<open>loadSettings\<close>, \<^verbatim>\<open>magic\<close> and the watch callback\<close>

lemma loadSettingsFromFile_trace:
  "loadSettingsFromFile env dirname S = (res, t) \<Longrightarrow> \<exists>p r. t = [LoadFile p r]"
  by (auto simp: loadSettingsFromFile_def Let_def split: sum.splits option.splits)

lemma loadSettings_unfold:
  assumes "loadSettingsFromFile env dirname S = (Returned S1, t0)"
  shows "loadSettings env dirname S =
           (Returned (fst (configurationHooks env (plugins S1)
                             (S1\<lparr>srcDir := srcDirFilter (srcDir S1)\<rparr>))),
            t0 @ snd (configurationHooks env (plugins S1)
                             (S1\<lparr>srcDir := srcDirFilter (srcDir S1)\<rparr>)))"
  using assms by (simp add: loadSettings_def Let_def split: prod.splits)

lemma loadSettings_stages:
  assumes "loadSettingsFromFile env dirname S = (Returned S1, t0)"
  shows "stages (snd (loadSettings env dirname S)) =
           SettingsLoad # checkpointCalls env Configuration (plugins S1)"
proof -
  from loadSettingsFromFile_trace [OF assms] obtain p r where "t0 = [LoadFile p r]" by blast
  with loadSettings_unfold [OF assms] show ?thesis
    by (simp add: stages_Cons stages_append configurationHooks_stages)
qed

lemma loadSettings_first: "firstState (snd (loadSettings env dirname S)) = None"
proof -
  obtain r0 t0 where lf: "loadSettingsFromFile env dirname S = (r0, t0)"
    by (cases "loadSettingsFromFile env dirname S")
  from loadSettingsFromFile_trace [OF lf] obtain p r where t0: "t0 = [LoadFile p r]" by blast
  show ?thesis
  proof (cases r0)
    case (Raised e)
    with lf t0 show ?thesis by (simp add: loadSettings_def)
  next
    case (Returned S1)
    let ?S = "S1\<lparr>srcDir := srcDirFilter (srcDir S1)\<rparr>"
    obtain S3 t3 where ch: "configurationHooks env (plugins S1) ?S = (S3, t3)"
      by (cases "configurationHooks env (plugins S1) ?S")
    from configurationHooks_events [OF ch] have "firstState t3 = None"
      by (simp add: firstState_None)
    with loadSettings_unfold [OF lf [unfolded Returned]] ch t0 show ?thesis
      by (simp add: firstState_append)
  qed
qed

lemma loadSettings_starts:
  "\<exists>rest. stages (snd (loadSettings env dirname S)) = SettingsLoad # rest"
proof -
  obtain r0 t0 where lf: "loadSettingsFromFile env dirname S = (r0, t0)"
    by (cases "loadSettingsFromFile env dirname S")
  from loadSettingsFromFile_trace [OF lf] obtain p r where t0: "t0 = [LoadFile p r]" by blast
  show ?thesis
  proof (cases r0)
    case (Raised e)
    with lf t0 show ?thesis by (simp add: loadSettings_def stages_Cons stages_Nil)
  next
    case (Returned S1)
    from loadSettings_stages [OF lf [unfolded Returned]] show ?thesis by simp
  qed
qed


lemma watchCallback_trace:
  "snd (watchCallback env dirname S name) =
     LoggerLog (''changed: '' @ name) # snd (loadSettings env dirname S)
       @ (case fst (loadSettings env dirname S) of
            Raised e \<Rightarrow> []
          | Returned S' \<Rightarrow> snd (bundle' env S'))"
proof -
  obtain r t where l: "loadSettings env dirname S = (r, t)"
    by (cases "loadSettings env dirname S")
  then show ?thesis by (cases r) (simp_all add: watchCallback_def)
qed

subsection \<open>The example runs\<close>

lemmas example_defs =
  pluginsEnv_def quietEnv_def throwingPlugin_def observingPlugin_def writingPlugin_def
  replacingPlugin_def noHooks_def touchedState_def initialState_def

lemma defaultSettings_fields:
  "plugins defaultSettings = []"
  "settingsFile defaultSettings = ''spear.config''"
  "srcDir defaultSettings = [''/proj/src'']"
  "componentsFolder defaultSettings = [''/proj/src/components'']"
  by (simp_all add: defaultSettings_def initializeArgument_def buildArgs_def Let_def)

lemma touched_differs: "touchedState \<noteq> initialState"
  by (simp add: touchedState_def initialState_def)

lemma srcDirFilter_fourDirs:
  "srcDirFilter fourDirs = [''/a'', ''/a/b'', ''/a/components'']"
  by (simp add: fourDirs_def srcDirFilter_def startsWith_def endsWith_def suffix_to_prefix)

lemma loadFromFile_fourDirs:
  "loadSettingsFromFile (quietEnv\<lparr>loadFile := (\<lambda>pattern. Inr (Some [SrcDir fourDirs]))\<rparr>)
       ''/proj'' defaultSettings
     = (Returned (defaultSettings\<lparr>srcDir := fourDirs\<rparr>),
        [LoadFile ''/proj/spear.config.?(mjs|js|json)'' (Inr (Some [SrcDir fourDirs]))])"
  by (simp add: loadSettingsFromFile_def quietEnv_def defaultSettings_fields)

lemma loadSettings_twoDirs:
  "loadSettings twoDirsEnv ''/proj'' defaultSettings =
     (Returned (defaultSettings\<lparr>srcDir := [''/a'', ''/a/b'']\<rparr>),
      [LoadFile ''/proj/spear.config.?(mjs|js|json)'' (Inr (Some [SrcDir [''/a'', ''/a/b'']]))])"
  by (simp add: loadSettings_def loadSettingsFromFile_def twoDirsEnv_def quietEnv_def
      defaultSettings_fields srcDirFilter_def startsWith_def endsWith_def suffix_to_prefix)

lemma loadSettings_threeDirs:
  "loadSettings threeDirsEnv ''/proj'' defaultSettings =
     (Returned (defaultSettings\<lparr>srcDir := [''/x/components'', ''/x/pages'']\<rparr>),
      [LoadFile ''/proj/spear.config.?(mjs|js|json)''
         (Inr (Some [SrcDir [''/x/components'', ''/x/components/deep'', ''/x/pages'']]))])"
  by (simp add: loadSettings_def loadSettingsFromFile_def threeDirsEnv_def quietEnv_def
      defaultSettings_fields srcDirFilter_def startsWith_def endsWith_def suffix_to_prefix)

lemma bundle_quiet:
  "bundle' quietEnv defaultSettings =
     (Returned True,
      [CreateDir defaultSettings None,
       ParseComponents initialState ''/proj/src/components'' defaultSettings (Inr initialState),
       ParsePages initialState ''/proj/src'' (Inr initialState),
       GenerateAliasPages initialState (Inr []),
       DumpPages initialState None])"
  by (simp add: bundle'_def Let_def example_defs defaultSettings_fields)

lemma bundle_parse_fails:
  "bundle' parseFailsEnv defaultSettings =
     (Returned False,
      [CreateDir defaultSettings None,
       ParseComponents initialState ''/proj/src/components'' defaultSettings
         (Inl (Failure ''unreadable'')),
       LoggerError (Failure ''unreadable'')])"
  by (simp add: bundle'_def Let_def parseFailsEnv_def example_defs defaultSettings_fields)

lemma bundle_alias_fails:
  "bundle' aliasFailsEnv defaultSettings =
     (Raised (Failure ''alias''),
      [CreateDir defaultSettings None,
       ParseComponents initialState ''/proj/src/components'' defaultSettings (Inr initialState),
       ParsePages initialState ''/proj/src'' (Inr initialState),
       GenerateAliasPages initialState (Inl (Failure ''alias''))])"
  by (simp add: bundle'_def Let_def aliasFailsEnv_def example_defs defaultSettings_fields)

lemma bundle_throwing_first:
  "bundle' pluginsEnv (defaultSettings\<lparr>plugins := [10, 20]\<rparr>) =
     (Returned True,
      [CallHook BeforeBuild 10 initialState (touchedState, Raises),
       ConsoleWarn '' plugin process failed. [first]'',
       CallHook BeforeBuild 20 touchedState (touchedState, ReturnsFalsy),
       CreateDir (defaultSettings\<lparr>plugins := [10, 20]\<rparr>) None,
       ParseComponents touchedState ''/proj/src/components''
         (defaultSettings\<lparr>plugins := [10, 20]\<rparr>) (Inr touchedState),
       ParsePages touchedState ''/proj/src'' (Inr touchedState),
       GenerateAliasPages touchedState (Inr []),
       CallHook AfterBuild 20 touchedState (touchedState, ReturnsFalsy),
       DumpPages touchedState None,
       CallHook Bundle 20 touchedState (touchedState, ReturnsFalsy)])"
  by (simp add: bundle'_def Let_def hookStep_def example_defs defaultSettings_fields)

lemma bundle_writing_first:
  "take 2 (snd (bundle' pluginsEnv (defaultSettings\<lparr>plugins := [30, 20]\<rparr>))) =
     [CallHook BeforeBuild 30 initialState (touchedState, ReturnsFalsy),
      CallHook BeforeBuild 20 touchedState (touchedState, ReturnsFalsy)]"
  by (simp add: bundle'_def Let_def hookStep_def example_defs defaultSettings_fields)








section \<open>The claims\<close>

subsection \<open>C1: settings deduplication\<close>

text \<open>
  C1, as amended. For every configured \<^verbatim>\<open>srcDir\<close> list (the one in force when
  the settings file has been read), \<^verbatim>\<open>loadSettings\<close> removes exactly the
  entries \<open>A\<close> for which the list has a distinct entry \<open>B\<close> such that \<open>A\<close>
  starts with \<open>B\<close> and \<open>B\<close> ends with \<^verbatim>\<open>components\<close>; the other entries
  stay, in their order, and these are the settings that the configuration hooks get.
  An entry is never redundant with itself.
\<close>

theorem loadSettings_filters_srcDir:
  assumes "loadSettingsFromFile env dirname S = (Returned S1, t)"
  shows "loadSettings env dirname S =
           (let S2 = S1\<lparr>srcDir :=
                       filter (\<lambda>A. \<not> (\<exists>B\<in>set (srcDir S1).
                                 B \<noteq> A \<and> startsWith A B \<and> endsWith B ''components''))
                         (srcDir S1)\<rparr>;
                (S3, t3) = configurationHooks env (plugins S2) S2
            in (Returned S3, t @ t3))"
  using assms by (simp add: loadSettings_def srcDirFilter_char Let_def)

text \<open>
  The theorem at the list of the specification's example: \<^verbatim>\<open>/a/components/sub\<close>
  is removed, \<^verbatim>\<open>/a/b\<close> stays.
\<close>

theorem loadSettings_fourDirs:
  "loadSettings (quietEnv\<lparr>loadFile := (\<lambda>pattern. Inr (Some [SrcDir fourDirs]))\<rparr>)
        ''/proj'' defaultSettings
   = (Returned (defaultSettings\<lparr>srcDir := [''/a'', ''/a/b'', ''/a/components'']\<rparr>),
      [LoadFile ''/proj/spear.config.?(mjs|js|json)'' (Inr (Some [SrcDir fourDirs]))])"
proof -
  note loadSettings_filters_srcDir [OF loadFromFile_fourDirs]
  then show ?thesis
    by (simp add: Let_def defaultSettings_fields fourDirs_def startsWith_def endsWith_def
        suffix_to_prefix)
qed

text \<open>
  C1 as the specification states it fails on its own example: the result is not
  \<^verbatim>\<open>["/a", "/a/components", "/a/components/sub"]\<close>.
\<close>

theorem srcDir_example_not_as_specified:
  "(case fst (loadSettings
               (quietEnv\<lparr>loadFile := (\<lambda>pattern. Inr (Some [SrcDir fourDirs]))\<rparr>)
               ''/proj'' defaultSettings) of
      Returned S \<Rightarrow> srcDir S
    | Raised e \<Rightarrow> [])
   = [''/a'', ''/a/b'', ''/a/components'']
   \<and> [''/a'', ''/a/b'', ''/a/components''] \<noteq> [''/a'', ''/a/components'', ''/a/components/sub'']"
proof -
  have "fst (loadSettings
               (quietEnv\<lparr>loadFile := (\<lambda>pattern. Inr (Some [SrcDir fourDirs]))\<rparr>)
               ''/proj'' defaultSettings)
          = Returned (defaultSettings\<lparr>srcDir := srcDirFilter fourDirs\<rparr>)"
    by (simp add: loadSettings_def loadFromFile_fourDirs defaultSettings_fields)
  then show ?thesis
    by (simp add: srcDirFilter_fourDirs)
qed

subsection \<open>C2: a hook that raises\<close>




subsection \<open>C3: a parse that raises\<close>

text \<open>
  C3. If a call of \<^verbatim>\<open>parseComponents\<close> or of \<^verbatim>\<open>parsePages\<close> in a pass
  raises the error \<open>e\<close>, then \<^verbatim>\<open>bundle\<close> returns false; the call is followed
  by \<^verbatim>\<open>logger.error(e)\<close> and by nothing else; and the pass has called no
  \<^verbatim>\<open>afterBuild\<close> hook, no \<^verbatim>\<open>bundle\<close> hook and not \<^verbatim>\<open>dumpPages\<close>.
\<close>

theorem parse_failure_returns_false:
  assumes "bundle' env S = (res, tr)" and "ev \<in> set tr" and "faultOf ev = Some (ParseFault e)"
  shows "res = Returned False \<and> (\<exists>pre. tr = pre @ [ev, LoggerError e])
           \<and> (\<forall>x\<in>set tr. \<not> isLate x)"
proof -
  from bundle_outcome [OF assms(1)] assms(2,3) have false: "res = Returned False" by blast
  show ?thesis
  proof (cases rule: bundle_cases [of env S])
    case (parseComponents s0 t0 e' t1)
    note f0 = runHooks_no_fault [OF parseComponents(1)]
    note l0 = runHooks_not_late [OF parseComponents(1)]
    note l1 = parseComponentsLoop_not_late [OF parseComponents(2)]
    from parseComponentsLoop_fails [OF parseComponents(2)] obtain pre a d where
      t1: "t1 = pre @ [ParseComponents a d S (Inl e')]"
      and f1: "\<forall>ev\<in>set pre. faultOf ev = None"
      by blast
    from parseComponents(3) assms(1) have tr:
      "tr = t0 @ [CreateDir S None] @ t1 @ [LoggerError e']" by simp
    with t1 f0 f1 assms(2,3) have "ev = ParseComponents a d S (Inl e')" "e = e'" by auto
    with tr t1 have "tr = (t0 @ [CreateDir S None] @ pre) @ [ev, LoggerError e]" by simp
    then have "\<exists>pre. tr = pre @ [ev, LoggerError e]" ..
    moreover from tr l0 l1 have "\<forall>x\<in>set tr. \<not> isLate x" by auto
    ultimately show ?thesis using false by simp
  next
    case (parsePages s0 t0 s1 t1 e' t2)
    note f0 = runHooks_no_fault [OF parsePages(1)]
    note l0 = runHooks_not_late [OF parsePages(1)]
    note l1 = parseComponentsLoop_not_late [OF parsePages(2)]
    note l2 = parsePagesLoop_not_late [OF parsePages(3)]
    from parseComponentsLoop_ok [OF parsePages(2)] have f1: "\<forall>ev\<in>set t1. faultOf ev = None" ..
    from parsePagesLoop_fails [OF parsePages(3)] obtain pre a d where
      t2: "t2 = pre @ [ParsePages a d (Inl e')]" and f2: "\<forall>ev\<in>set pre. faultOf ev = None"
      by blast
    from parsePages(4) assms(1) have tr:
      "tr = t0 @ [CreateDir S None] @ t1 @ t2 @ [LoggerError e']" by simp
    with t2 f0 f1 f2 assms(2,3) have "ev = ParsePages a d (Inl e')" "e = e'" by auto
    with tr t2 have "tr = (t0 @ [CreateDir S None] @ t1 @ pre) @ [ev, LoggerError e]" by simp
    then have "\<exists>pre. tr = pre @ [ev, LoggerError e]" ..
    moreover from tr l0 l1 l2 have "\<forall>x\<in>set tr. \<not> isLate x" by auto
    ultimately show ?thesis using false by simp
  qed (insert false assms(1), simp_all)
qed

text \<open>The theorem at a component directory that cannot be parsed.\<close>

theorem parse_failure_returns_false_witness:
  "fst (bundle' parseFailsEnv defaultSettings) = Returned False
   \<and> (\<exists>pre. snd (bundle' parseFailsEnv defaultSettings) =
          pre @ [ParseComponents initialState ''/proj/src/components'' defaultSettings
                   (Inl (Failure ''unreadable'')),
                 LoggerError (Failure ''unreadable'')])
   \<and> list_all (\<lambda>x. \<not> isLate x) (snd (bundle' parseFailsEnv defaultSettings))"
proof -
  have "ParseComponents initialState ''/proj/src/components'' defaultSettings
          (Inl (Failure ''unreadable''))
        \<in> set [CreateDir defaultSettings None,
              ParseComponents initialState ''/proj/src/components'' defaultSettings
                (Inl (Failure ''unreadable'')),
              LoggerError (Failure ''unreadable'')]"
    and "faultOf (ParseComponents initialState ''/proj/src/components'' defaultSettings
          (Inl (Failure ''unreadable''))) = Some (ParseFault (Failure ''unreadable''))"
    by simp_all
  from parse_failure_returns_false [OF bundle_parse_fails this]
  show ?thesis by (simp add: bundle_parse_fails)
qed

subsection \<open>C4: two passes over each page\<close>



subsection \<open>C5: what a hook returns\<close>

text \<open>
  C5, as amended. For a call of a hook at any checkpoint: if the hook returns an object,
  the working state (the Settings at the configuration checkpoint) becomes the deep copy
  of that object, whatever the hook left in the object it was passed; if it returns a
  falsy value, the working state is not replaced: it is the object that the hook was
  passed, with what the hook has written into it. On references: the deep copy is a new
  object with the content of the returned one, so that a later write to any object that
  existed before, the returned one among them, does not change it; and a falsy return
  leaves the pipeline's reference where it was.
\<close>

theorem hook_return_replaces_state:
  "(hookSlot cp (pluginAt env r) = Some h \<and> h s = (left, Returns new)
    \<longrightarrow> hookStep env cp r s = (stateDeepCopy new, [CallHook cp r s (left, Returns new)])
        \<and> stateDeepCopy new = new)
   \<and> (hookSlot cp (pluginAt env r) = Some h \<and> h s = (left, ReturnsFalsy)
    \<longrightarrow> hookStep env cp r s = (left, [CallHook cp r s (left, ReturnsFalsy)]))
   \<and> (configuration (pluginAt env r) = Some k \<and> k S = (leftS, Returns newS)
    \<longrightarrow> configurationStep env r S =
          (defaultSettingDeepCopy newS, [CallConfiguration r S (leftS, Returns newS)])
        \<and> defaultSettingDeepCopy newS = newS)
   \<and> (configuration (pluginAt env r) = Some k \<and> k S = (leftS, ReturnsFalsy)
    \<longrightarrow> configurationStep env r S = (leftS, [CallConfiguration r S (leftS, ReturnsFalsy)]))
   \<and> (a < length objs
    \<longrightarrow> replaceIfTruthy objs state (Some a) = Some (objs @ [objs ! a], length objs)
        \<and> length objs \<noteq> a
        \<and> (\<forall>b<length objs. \<forall>v.
              ((objs @ [objs ! a])[b := v]) ! length objs = objs ! a))
   \<and> replaceIfTruthy objs state None = Some (objs, state)"
  by (simp add: hookStep_def configurationStep_def stateDeepCopy_def defaultSettingDeepCopy_def
      replaceIfTruthy_def deepCopyAt_def nth_append)

text \<open>
  The theorem at the plugins 40 (which returns an object), 30 and 20 (which return
  nothing), and at a store of two states.
\<close>

theorem hook_return_replaces_state_witness:
  "hookStep pluginsEnv BeforeBuild 40 initialState =
     (touchedState, [CallHook BeforeBuild 40 initialState (initialState, Returns touchedState)])
   \<and> hookStep pluginsEnv BeforeBuild 30 initialState =
     (touchedState, [CallHook BeforeBuild 30 initialState (touchedState, ReturnsFalsy)])
   \<and> configurationStep pluginsEnv 40 defaultSettings =
     (defaultSettings\<lparr>projectName := ''renamed''\<rparr>,
      [CallConfiguration 40 defaultSettings
         (defaultSettings, Returns (defaultSettings\<lparr>projectName := ''renamed''\<rparr>))])
   \<and> configurationStep pluginsEnv 20 defaultSettings =
     (defaultSettings, [CallConfiguration 20 defaultSettings (defaultSettings, ReturnsFalsy)])
   \<and> replaceIfTruthy [initialState, touchedState] 0 (Some 1) =
       Some ([initialState, touchedState, touchedState], 2)
   \<and> ([initialState, touchedState, touchedState][1 := initialState]) ! 2 = touchedState
   \<and> replaceIfTruthy [initialState, touchedState] 0 None = Some ([initialState, touchedState], 0)"
proof -
  have slots:
    "hookSlot BeforeBuild (pluginAt pluginsEnv 40) = Some (\<lambda>s. (s, Returns touchedState))"
    "hookSlot BeforeBuild (pluginAt pluginsEnv 30)
       = Some (\<lambda>s. (s\<lparr>globalProps := [(''touched'', ''yes'')]\<rparr>, ReturnsFalsy))"
    "configuration (pluginAt pluginsEnv 40)
       = Some (\<lambda>S. (S, Returns (S\<lparr>projectName := ''renamed''\<rparr>)))"
    "configuration (pluginAt pluginsEnv 20) = Some (\<lambda>S. (S, ReturnsFalsy))"
    by (simp_all add: example_defs)
  note returning =
    hook_return_replaces_state
      [where cp = BeforeBuild and env = pluginsEnv and r = 40
         and h = "\<lambda>s. (s, Returns touchedState)" and s = initialState and left = initialState
         and new = touchedState
         and k = "\<lambda>S. (S, Returns (S\<lparr>projectName := ''renamed''\<rparr>))" and S = defaultSettings
         and leftS = defaultSettings and newS = "defaultSettings\<lparr>projectName := ''renamed''\<rparr>"
         and a = 1 and objs = "[initialState, touchedState]" and state = 0]
  note falsy =
    hook_return_replaces_state
      [where cp = BeforeBuild and env = pluginsEnv and r = 30
         and h = "\<lambda>s. (s\<lparr>globalProps := [(''touched'', ''yes'')]\<rparr>, ReturnsFalsy)"
         and s = initialState and left = touchedState and new = touchedState
         and k = "\<lambda>S. (S, ReturnsFalsy)" and S = defaultSettings
         and leftS = defaultSettings and newS = defaultSettings
         and a = 1 and objs = "[initialState, touchedState]" and state = 0]
  note cfalsy =
    hook_return_replaces_state
      [where cp = BeforeBuild and env = pluginsEnv and r = 20
         and h = "\<lambda>s. (s, ReturnsFalsy)" and s = initialState and left = initialState
         and new = touchedState
         and k = "\<lambda>S. (S, ReturnsFalsy)" and S = defaultSettings
         and leftS = defaultSettings and newS = defaultSettings
         and a = 1 and objs = "[initialState, touchedState]" and state = 0]
  from returning slots(1,3) have
    r1: "hookStep pluginsEnv BeforeBuild 40 initialState =
           (stateDeepCopy touchedState,
            [CallHook BeforeBuild 40 initialState (initialState, Returns touchedState)])"
    and r2: "configurationStep pluginsEnv 40 defaultSettings =
           (defaultSettingDeepCopy (defaultSettings\<lparr>projectName := ''renamed''\<rparr>),
            [CallConfiguration 40 defaultSettings
               (defaultSettings, Returns (defaultSettings\<lparr>projectName := ''renamed''\<rparr>))])"
    and r3: "replaceIfTruthy [initialState, touchedState] 0 (Some 1) =
           Some ([initialState, touchedState] @ [[initialState, touchedState] ! 1],
                 length [initialState, touchedState])"
    and r4: "\<forall>b<length [initialState, touchedState]. \<forall>v.
              (([initialState, touchedState] @ [[initialState, touchedState] ! 1])[b := v])
                 ! length [initialState, touchedState] = [initialState, touchedState] ! 1"
    and r5: "replaceIfTruthy [initialState, touchedState] 0 None =
           Some ([initialState, touchedState], 0)"
    by simp_all
  from falsy slots(2) have
    f1: "hookStep pluginsEnv BeforeBuild 30 initialState =
           (touchedState, [CallHook BeforeBuild 30 initialState (touchedState, ReturnsFalsy)])"
    by (simp add: touchedState_def)
  from cfalsy slots(4) have
    f2: "configurationStep pluginsEnv 20 defaultSettings =
           (defaultSettings,
            [CallConfiguration 20 defaultSettings (defaultSettings, ReturnsFalsy)])"
    by simp
  from r4 have
    "(([initialState, touchedState] @ [[initialState, touchedState] ! 1])[1 := initialState])
        ! length [initialState, touchedState] = [initialState, touchedState] ! 1"
    by simp
  then have r4': "([initialState, touchedState, touchedState][1 := initialState]) ! 2
                    = touchedState"
    by simp
  from r3 have r3': "replaceIfTruthy [initialState, touchedState] 0 (Some 1) =
       Some ([initialState, touchedState, touchedState], 2)"
    by simp
  from r1 r2 r3' r4' r5 f1 f2 show ?thesis
    by (simp add: stateDeepCopy_def defaultSettingDeepCopy_def)
qed

text \<open>
  C5 as the specification states it fails where a hook writes into the state and returns
  nothing: the working state is not left unchanged, the next plugin gets the changed one.
\<close>

theorem mutating_silent_hook_changes_state:
  "take 2 (snd (bundle' pluginsEnv (defaultSettings\<lparr>plugins := [30, 20]\<rparr>))) =
     [CallHook BeforeBuild 30 initialState (touchedState, ReturnsFalsy),
      CallHook BeforeBuild 20 touchedState (touchedState, ReturnsFalsy)]
   \<and> touchedState \<noteq> initialState"
  by (simp add: bundle_writing_first touched_differs)

subsection \<open>C6: which failures end a pass\<close>

text \<open>
  C6, as amended. A pass returns true exactly when no call of a collaborator in it raises,
  whatever the hooks do; it returns false exactly when a parse call raises; and it ends
  with the error \<open>e\<close>, neither true nor false, exactly when another collaborator
  raises \<open>e\<close>: the creation of the output directory, the resolver, the read of
  \<^verbatim>\<open>outerHTML\<close> of a component that resolved to no node, the alias pages or
  the dump.
\<close>

theorem bundle_outcome_by_faults:
  assumes "bundle' env S = (res, tr)"
  shows "(res = Returned True \<longleftrightarrow> (\<forall>ev\<in>set tr. faultOf ev = None))
       \<and> (res = Returned False \<longleftrightarrow> (\<exists>ev\<in>set tr. \<exists>e. faultOf ev = Some (ParseFault e)))
       \<and> (res = Raised e \<longleftrightarrow> (\<exists>ev\<in>set tr. faultOf ev = Some (OtherFault e)))"
  using assms by (rule bundle_outcome)

text \<open>The theorem at a quiet pass, at a parse that raises and at alias pages that raise.\<close>

theorem bundle_outcome_by_faults_witness:
  "fst (bundle' quietEnv defaultSettings) = Returned True
   \<and> fst (bundle' parseFailsEnv defaultSettings) = Returned False
   \<and> fst (bundle' aliasFailsEnv defaultSettings) = Raised (Failure ''alias'')"
  using bundle_outcome_by_faults [OF bundle_quiet, of "Failure ''alias''"]
    bundle_outcome_by_faults [OF bundle_parse_fails, of "Failure ''alias''"]
    bundle_outcome_by_faults [OF bundle_alias_fails, of "Failure ''alias''"]
  by (simp add: bundle_quiet bundle_parse_fails bundle_alias_fails)

text \<open>
  C6 as the specification states it fails where the alias pages raise: both parse loops
  have succeeded, and \<^verbatim>\<open>bundle\<close> does not return true.
\<close>

theorem alias_failure_escapes_bundle:
  "bundle' aliasFailsEnv defaultSettings =
     (Raised (Failure ''alias''),
      [CreateDir defaultSettings None,
       ParseComponents initialState ''/proj/src/components'' defaultSettings (Inr initialState),
       ParsePages initialState ''/proj/src'' (Inr initialState),
       GenerateAliasPages initialState (Inl (Failure ''alias''))])
   \<and> Raised (Failure ''alias'') \<noteq> Returned True"
  by (simp add: bundle_alias_fails)

subsection \<open>C7: the order of the checkpoints and of the plugins\<close>



subsection \<open>C8: the invariant of \<^verbatim>\<open>srcDir\<close>\<close>

text \<open>
  C8, as amended. When \<^verbatim>\<open>loadSettings\<close> has returned and no configuration hook
  has changed \<^verbatim>\<open>srcDir\<close>, in the object it was passed or in the one it returned,
  \<^verbatim>\<open>Settings.srcDir\<close> has no entry that starts with another, distinct entry
  ending with \<^verbatim>\<open>components\<close>.
\<close>

theorem loadSettings_invariant:
  assumes "loadSettings env dirname S = (Returned S2, tr)" and "\<forall>ev\<in>set tr. keepsSrcDir ev"
  shows "\<not> (\<exists>A\<in>set (srcDir S2). \<exists>B\<in>set (srcDir S2).
               B \<noteq> A \<and> startsWith A B \<and> endsWith B ''components'')"
proof -
  obtain r0 t0 where lf: "loadSettingsFromFile env dirname S = (r0, t0)"
    by (cases "loadSettingsFromFile env dirname S")
  with assms(1) obtain S1 where r0: "r0 = Returned S1"
    by (cases r0) (auto simp: loadSettings_def)
  let ?S = "S1\<lparr>srcDir := srcDirFilter (srcDir S1)\<rparr>"
  obtain S3 t3 where ch: "configurationHooks env (plugins S1) ?S = (S3, t3)"
    by (cases "configurationHooks env (plugins S1) ?S")
  from loadSettings_unfold [OF lf [unfolded r0]] assms(1) ch
  have "S2 = S3" "tr = t0 @ t3" by simp_all
  with assms(2) have "\<forall>ev\<in>set t3. keepsSrcDir ev" by simp
  from configurationHooks_srcDir [OF ch this] \<open>S2 = S3\<close>
  have "srcDir S2 = srcDirFilter (srcDir S1)" by simp
  with srcDirFilter_invariant [of "srcDir S1"] show ?thesis by simp
qed

text \<open>The theorem at a settings file with three directories, one of which is removed.\<close>

theorem loadSettings_invariant_witness:
  "\<not> (\<exists>A\<in>set [''/x/components'', ''/x/pages'']. \<exists>B\<in>set [''/x/components'', ''/x/pages''].
         B \<noteq> A \<and> startsWith A B \<and> endsWith B ''components'')"
proof -
  have "\<forall>ev\<in>set [LoadFile ''/proj/spear.config.?(mjs|js|json)''
         (Inr (Some [SrcDir [''/x/components'', ''/x/components/deep'', ''/x/pages'']]))].
          keepsSrcDir ev"
    by simp
  from loadSettings_invariant [OF loadSettings_threeDirs this]
  show ?thesis by simp
qed

text \<open>
  C8 as the specification states it fails with no plugin at all: \<^verbatim>\<open>/a/b\<close> stays
  in \<^verbatim>\<open>srcDir\<close> next to \<^verbatim>\<open>/a\<close>, which is not a components directory.
\<close>

theorem nested_srcDir_survives_loadSettings:
  "(case fst (loadSettings twoDirsEnv ''/proj'' defaultSettings) of
      Returned S \<Rightarrow> srcDir S
    | Raised e \<Rightarrow> []) = [''/a'', ''/a/b'']
   \<and> ''/a/b'' \<noteq> ''/a'' \<and> startsWith ''/a/b'' ''/a'' \<and> \<not> endsWith ''/a'' ''components''"
  by (simp add: loadSettings_twoDirs startsWith_def endsWith_def suffix_to_prefix)

subsection \<open>C9: a fresh state for every pass\<close>

text \<open>
  C9. \<^verbatim>\<open>bundle\<close> takes no state: the first call of a pass that is passed a state,
  if there is one, is passed the initial state, whose \<^verbatim>\<open>pagesList\<close>,
  \<^verbatim>\<open>componentsList\<close>, \<^verbatim>\<open>globalProps\<close> and \<^verbatim>\<open>out.assetsFiles\<close> are
  empty. The same holds for the watch callback, which loads the settings first.
\<close>

theorem fresh_state_each_pass:
  "(firstState (snd (bundle' env S)) = None
      \<or> firstState (snd (bundle' env S)) = Some initialState)
   \<and> (firstState (snd (watchCallback env dirname S name)) = None
      \<or> firstState (snd (watchCallback env dirname S name)) = Some initialState)
   \<and> (\<exists>rest. stages (snd (watchCallback env dirname S name)) = SettingsLoad # rest)
   \<and> pagesList initialState = [] \<and> componentsList initialState = []
   \<and> globalProps initialState = [] \<and> assetsFiles (out initialState) = []"
proof -
  have w: "firstState (snd (watchCallback env dirname S name)) = None
      \<or> firstState (snd (watchCallback env dirname S name)) = Some initialState"
  proof (cases "fst (loadSettings env dirname S)")
    case (Returned S')
    with bundle_first [of env S'] show ?thesis
      by (simp add: watchCallback_trace firstState_append loadSettings_first)
  next
    case (Raised e)
    then show ?thesis
      by (simp add: watchCallback_trace firstState_append loadSettings_first)
  qed
  from loadSettings_starts [of env dirname S] obtain rest where
    "stages (snd (loadSettings env dirname S)) = SettingsLoad # rest" ..
  then have "\<exists>rest. stages (snd (watchCallback env dirname S name)) = SettingsLoad # rest"
    by (simp add: watchCallback_trace stages_Cons stages_append)
  with w bundle_first [of env S] show ?thesis
    by (simp add: initialState_def)
qed

text \<open>The theorem at a pass with two plugins and at a watch callback.\<close>

theorem fresh_state_each_pass_witness:
  "firstState (snd (bundle' pluginsEnv (defaultSettings\<lparr>plugins := [10, 20]\<rparr>)))
     = Some initialState
   \<and> firstState (snd (watchCallback quietEnv ''/proj'' defaultSettings ''index.html''))
     = Some initialState
   \<and> (\<exists>rest. stages (snd (watchCallback quietEnv ''/proj'' defaultSettings ''index.html''))
               = SettingsLoad # rest)"
proof -
  have "loadSettings quietEnv ''/proj'' defaultSettings =
          (Returned defaultSettings,
           [LoadFile ''/proj/spear.config.?(mjs|js|json)'' (Inr None)])"
    by (simp add: loadSettings_def loadSettingsFromFile_def quietEnv_def
        defaultSettings_fields srcDirFilter_def startsWith_def endsWith_def suffix_to_prefix)
  then have "firstState (snd (watchCallback quietEnv ''/proj'' defaultSettings ''index.html''))
               \<noteq> None"
    by (simp add: watchCallback_def bundle_quiet)
  moreover have "firstState (snd (bundle' pluginsEnv (defaultSettings\<lparr>plugins := [10, 20]\<rparr>)))
               \<noteq> None"
    by (simp add: bundle_throwing_first)
  ultimately show ?thesis
    using fresh_state_each_pass
            [where env = pluginsEnv and S = "defaultSettings\<lparr>plugins := [10, 20]\<rparr>"
               and dirname = "''/proj''" and name = "''index.html''"]
      fresh_state_each_pass
            [where env = quietEnv and S = defaultSettings
               and dirname = "''/proj''" and name = "''index.html''"]
    by auto
qed

subsection \<open>C10: the rebuilt components\<close>

text \<open>
  C10. If every component of the list resolves to at least one node, the loop of lines
  107 to 116 returns a list of the same length, whose entry for the component \<open>c\<close>
  has the \<^verbatim>\<open>fname\<close> and the \<^verbatim>\<open>tagName\<close> of \<open>c\<close>, no \<^verbatim>\<open>props\<close>,
  the first resolved node \<open>n\<close> as its \<^verbatim>\<open>node\<close> and the
  \<^verbatim>\<open>outerHTML\<close> of \<open>n\<close> as its \<^verbatim>\<open>rawData\<close>; the other resolved
  nodes \<open>ns\<close> are in no entry.
\<close>

theorem rebuilt_components_keep_first_node:
  assumes "\<forall>c\<in>set cs. \<exists>n ns.
             parseElements env s (childNodes (Component.node c)) g S = Inr (n # ns)"
  shows "\<exists>cs' t. resolveComponents env s g S cs = (Inr cs', t)
           \<and> length cs' = length cs
           \<and> list_all2 (\<lambda>c c'. \<exists>n ns.
                 parseElements env s (childNodes (Component.node c)) g S = Inr (n # ns)
                 \<and> c' = \<lparr> Component.fname = Component.fname c, rawData = outerHTML env n,
                          tagName = tagName c, Component.node = n, props = [] \<rparr>) cs cs'"
proof -
  from resolveComponents_total [OF assms] obtain cs' t where
    r: "resolveComponents env s g S cs = (Inr cs', t)" by blast
  from resolveComponents_ok [OF r] have
    l: "list_all2 (\<lambda>c c'. \<exists>n ns.
           parseElements env s (childNodes (Component.node c)) g S = Inr (n # ns)
           \<and> c' = rebuiltFrom env c n) cs cs'" by simp
  then have "length cs' = length cs" by (simp add: list_all2_lengthD)
  with r l show ?thesis by (simp add: rebuiltFrom_def)
qed

text \<open>
  The theorem at the component of the example site, which resolves to two nodes.
\<close>

theorem rebuilt_components_keep_first_node_witness:
  "\<exists>t. resolveComponents siteEnv parsedSite (jsGeneratorOf defaultSettings) defaultSettings
          [boxComponent] = (Inr [resolvedBox], t)"
proof -
  have "\<forall>c\<in>set [boxComponent]. \<exists>n ns.
          parseElements siteEnv parsedSite (childNodes (Component.node c))
            (jsGeneratorOf defaultSettings) defaultSettings = Inr (n # ns)"
    by (simp add: siteEnv_def)
  from rebuilt_components_keep_first_node [OF this]
  show ?thesis
    by (auto simp: list_all2_Cons1 siteEnv_def quietEnv_def boxComponent_def resolvedBox_def)
qed

end
